theory Spec2Isabelle
  imports Main "HOL-Library.Multiset" "HOL-Library.Sublist"
begin

section \<open>Data model of the executor package\<close>

text \<open>
  Go strings are byte sequences, so they are modelled as \<^typ>\<open>string\<close> (a list of
  8-bit characters). A Go \<open>map[string]T\<close> is a partial function from \<^typ>\<open>string\<close>;
  a \<open>[]string\<close> is a list, with \<open>nil\<close> and the empty slice both \<open>[]\<close>.
  The builder is a pointer that every setter mutates and returns; the model passes the
  builder state through each call and returns the updated state.
\<close>

record Config =
  Project :: string
  Region :: string
  Zone :: string
  GCloudPath :: string
  CommandTimeout :: int

record Result =
  JSON :: "string option"
  Stdout :: string
  Stderr :: string
  ExitCode :: int

record Executor =
  config :: Config

definition New :: "Config \<Rightarrow> Executor" where
  "New cfg = \<lparr>config = cfg\<rparr>"

record CommandBuilder =
  executor :: Executor
  components :: "string list"
  flags :: "string \<rightharpoonup> string"
  arrayFlags :: "string \<rightharpoonup> string list"
  boolFlags :: "string list"
  project :: string
  region :: string
  zone :: string
  format :: string

section \<open>The builder: factory and setters\<close>

definition Command :: "Executor \<Rightarrow> string list \<Rightarrow> CommandBuilder" where
  "Command e comps =
     \<lparr>executor = e,
      components = comps,
      flags = Map.empty,
      arrayFlags = Map.empty,
      boolFlags = [],
      project = Project (config e),
      region = Region (config e),
      zone = Zone (config e),
      format = ''json''\<rparr>"

definition WithProject :: "string \<Rightarrow> CommandBuilder \<Rightarrow> CommandBuilder" where
  "WithProject p b = (if p \<noteq> '''' then b\<lparr>project := p\<rparr> else b)"

definition WithRegion :: "string \<Rightarrow> CommandBuilder \<Rightarrow> CommandBuilder" where
  "WithRegion r b = (if r \<noteq> '''' then b\<lparr>region := r\<rparr> else b)"

definition WithZone :: "string \<Rightarrow> CommandBuilder \<Rightarrow> CommandBuilder" where
  "WithZone z b = (if z \<noteq> '''' then b\<lparr>zone := z\<rparr> else b)"

definition WithFlag :: "string \<Rightarrow> string \<Rightarrow> CommandBuilder \<Rightarrow> CommandBuilder" where
  "WithFlag name val b =
     (if val \<noteq> '''' then b\<lparr>flags := (flags b)(name \<mapsto> val)\<rparr> else b)"

text \<open>
  \<open>b.arrayFlags[name]\<close> of a missing key is the nil slice, and \<open>append\<close> to it
  starts a new list.
\<close>

definition WithArrayFlag :: "string \<Rightarrow> string \<Rightarrow> CommandBuilder \<Rightarrow> CommandBuilder" where
  "WithArrayFlag name val b =
     (if val \<noteq> ''''
      then b\<lparr>arrayFlags := (arrayFlags b)
             (name \<mapsto> (case arrayFlags b name of None \<Rightarrow> [] | Some vs \<Rightarrow> vs) @ [val])\<rparr>
      else b)"

definition WithBoolFlag :: "string \<Rightarrow> CommandBuilder \<Rightarrow> CommandBuilder" where
  "WithBoolFlag name b = b\<lparr>boolFlags := boolFlags b @ [name]\<rparr>"

definition WithFormat :: "string \<Rightarrow> CommandBuilder \<Rightarrow> CommandBuilder" where
  "WithFormat f b = b\<lparr>format := f\<rparr>"

definition WithTextFormat :: "CommandBuilder \<Rightarrow> CommandBuilder" where
  "WithTextFormat b = b\<lparr>format := ''''\<rparr>"

definition GetProject :: "CommandBuilder \<Rightarrow> string" where
  "GetProject b = project b"

definition GetRegion :: "CommandBuilder \<Rightarrow> string" where
  "GetRegion b = region b"

definition GetZone :: "CommandBuilder \<Rightarrow> string" where
  "GetZone b = zone b"

text \<open>
  A call of the public interface on a builder, as data, and the builders a caller can
  reach: \<open>Command\<close> followed by any sequence of setter calls.
\<close>

datatype setter =
    CallWithProject string
  | CallWithRegion string
  | CallWithZone string
  | CallWithFlag string string
  | CallWithArrayFlag string string
  | CallWithBoolFlag string
  | CallWithFormat string
  | CallWithTextFormat

fun apply_setter :: "CommandBuilder \<Rightarrow> setter \<Rightarrow> CommandBuilder" where
  "apply_setter b (CallWithProject p) = WithProject p b"
| "apply_setter b (CallWithRegion r) = WithRegion r b"
| "apply_setter b (CallWithZone z) = WithZone z b"
| "apply_setter b (CallWithFlag n v) = WithFlag n v b"
| "apply_setter b (CallWithArrayFlag n v) = WithArrayFlag n v b"
| "apply_setter b (CallWithBoolFlag n) = WithBoolFlag n b"
| "apply_setter b (CallWithFormat f) = WithFormat f b"
| "apply_setter b CallWithTextFormat = WithTextFormat b"

definition apply_setters :: "CommandBuilder \<Rightarrow> setter list \<Rightarrow> CommandBuilder" where
  "apply_setters b cs = foldl apply_setter b cs"

text \<open>
  Two kinds of calls the properties below single out: a \<open>WithProject\<close> call that
  overrides the project (its argument is non-empty), and a call that sets the format.
\<close>

fun overrides_project :: "setter \<Rightarrow> bool" where
  "overrides_project (CallWithProject p) = (p \<noteq> '''')"
| "overrides_project c = False"

fun sets_format :: "setter \<Rightarrow> bool" where
  "sets_format (CallWithFormat f) = True"
| "sets_format CallWithTextFormat = True"
| "sets_format c = False"

section \<open>Build\<close>

text \<open>
  \<open>fmt.Sprintf("--%s=%s", name, value)\<close> and \<open>fmt.Sprintf("--%s", flag)\<close>.
\<close>

definition flagToken :: "string \<Rightarrow> string \<Rightarrow> string" where
  "flagToken name val = ''--'' @ name @ ''='' @ val"

definition boolToken :: "string \<Rightarrow> string" where
  "boolToken flag = ''--'' @ flag"

text \<open>
  Go's \<open>range\<close> over a map visits every key of the map exactly once, in an order the
  runtime chooses. The order is a parameter of the model: a list \<open>ks\<close> of keys, which for
  a real run satisfies \<open>range_order m ks\<close>. The loops append to \<open>args\<close> as the source does.
\<close>

definition range_order :: "(string \<rightharpoonup> 'v) \<Rightarrow> string list \<Rightarrow> bool" where
  "range_order m ks = (distinct ks \<and> set ks = dom m)"

definition range_flags :: "(string \<rightharpoonup> string) \<Rightarrow> string list \<Rightarrow> string list \<Rightarrow> string list" where
  "range_flags m ks args =
     foldl (\<lambda>args name. case m name of None \<Rightarrow> args
                         | Some val \<Rightarrow> args @ [flagToken name val]) args ks"

definition range_arrayFlags ::
  "(string \<rightharpoonup> string list) \<Rightarrow> string list \<Rightarrow> string list \<Rightarrow> string list" where
  "range_arrayFlags m ks args =
     foldl (\<lambda>args name. case m name of None \<Rightarrow> args
                         | Some vals \<Rightarrow> foldl (\<lambda>args val. args @ [flagToken name val]) args vals)
           args ks"

definition Build :: "string list \<Rightarrow> string list \<Rightarrow> CommandBuilder \<Rightarrow> string list" where
  "Build fo ao b =
     (let args = [] @ components b;
          args = range_flags (flags b) fo args;
          args = range_arrayFlags (arrayFlags b) ao args;
          args = foldl (\<lambda>args flag. args @ [boolToken flag]) args (boolFlags b);
          args = (if project b \<noteq> '''' then args @ [''--project='' @ project b] else args);
          args = (if format b \<noteq> '''' then args @ [''--format='' @ format b] else args)
      in args)"

section \<open>Execution\<close>

text \<open>
  \<open>Execute\<close> spawns the configured executable with the built arguments and waits for
  it under the command timeout. The outside world is a parameter of the model: \<open>run\<close>
  maps the executable path and the argument list to what \<open>cmd.Run()\<close> leaves behind,
  namely the captured stdout and stderr and the returned error (nil, an
  \<open>*exec.ExitError\<close> carrying an exit code, or any other error such as a failed spawn).
  Both kinds of error carry the text of their \<open>Error()\<close> method.
\<close>

datatype run_error = ExitError int string | OtherError string

fun Error_text :: "run_error \<Rightarrow> string" where
  "Error_text (ExitError code msg) = msg"
| "Error_text (OtherError msg) = msg"

record proc_outcome =
  out_stdout :: string
  out_stderr :: string
  out_err :: "run_error option"

text \<open>
  What one call of \<open>Execute\<close> does and returns: the path and arguments handed to
  \<open>exec.CommandContext\<close>, the returned \<open>*Result\<close> and the returned error (its text).
\<close>

record execution =
  exec_path :: string
  exec_args :: "string list"
  exec_result :: Result
  exec_error :: "string option"

text \<open>
  \<open>strings.TrimSpace\<close> is library code and a parameter of \<open>Execute\<close>. On a string
  of ASCII bytes the library function cuts the leading and trailing bytes of its
  \<open>asciiSpace\<close> table, which is \<open>TrimSpace_ascii\<close>.
\<close>

definition asciiSpace :: "char \<Rightarrow> bool" where
  "asciiSpace c =
     (c = CHR 0x09 \<or> c = CHR 0x0A \<or> c = CHR 0x0B \<or> c = CHR 0x0C \<or> c = CHR 0x0D
      \<or> c = CHR '' '')"

definition TrimSpace_ascii :: "string \<Rightarrow> string" where
  "TrimSpace_ascii s = rev (dropWhile asciiSpace (rev (dropWhile asciiSpace s)))"

definition Execute ::
  "string list \<Rightarrow> string list \<Rightarrow> (string \<Rightarrow> string list \<Rightarrow> proc_outcome) \<Rightarrow> (string \<Rightarrow> string)
   \<Rightarrow> CommandBuilder \<Rightarrow> execution" where
  "Execute fo ao run TrimSpace b =
     (let args = Build fo ao b;
          path = GCloudPath (config (executor b));
          out = run path args;
          result = \<lparr>JSON = None, Stdout = out_stdout out, Stderr = out_stderr out,
                    ExitCode = 0\<rparr>
      in case out_err out of
           Some e \<Rightarrow>
             \<lparr>exec_path = path, exec_args = args,
              exec_result = (case e of ExitError code msg \<Rightarrow> result\<lparr>ExitCode := code\<rparr>
                                     | OtherError msg \<Rightarrow> result),
              exec_error = Some (''gcloud command failed: '' @ Error_text e @ [CHR 0x0A]
                                 @ ''stderr: '' @ out_stderr out)\<rparr>
         | None \<Rightarrow>
             \<lparr>exec_path = path, exec_args = args,
              exec_result =
                (if format b = ''json'' \<and> length (out_stdout out) > 0
                 then (let trimmed = TrimSpace (out_stdout out)
                       in if trimmed \<noteq> '''' then result\<lparr>JSON := Some trimmed\<rparr> else result)
                 else result),
              exec_error = None\<rparr>)"

definition ExecuteWithRegion ::
  "string list \<Rightarrow> string list \<Rightarrow> (string \<Rightarrow> string list \<Rightarrow> proc_outcome) \<Rightarrow> (string \<Rightarrow> string)
   \<Rightarrow> CommandBuilder \<Rightarrow> execution" where
  "ExecuteWithRegion fo ao run TrimSpace b =
     Execute fo ao run TrimSpace
       (if region b \<noteq> '''' then WithFlag ''region'' (region b) b else b)"

definition ExecuteWithZone ::
  "string list \<Rightarrow> string list \<Rightarrow> (string \<Rightarrow> string list \<Rightarrow> proc_outcome) \<Rightarrow> (string \<Rightarrow> string)
   \<Rightarrow> CommandBuilder \<Rightarrow> execution" where
  "ExecuteWithZone fo ao run TrimSpace b =
     Execute fo ao run TrimSpace
       (if zone b \<noteq> '''' then WithFlag ''zone'' (zone b) b else b)"

text \<open>The configuration the package's tests run with (\<open>newTestConfig\<close>).\<close>

definition newTestConfig :: Config where
  "newTestConfig =
     \<lparr>Project = ''default-project'', Region = ''us-central1'', Zone = ''us-central1-a'',
      GCloudPath = ''gcloud'', CommandTimeout = 5 * 60 * 1000000000\<rparr>"

section \<open>Error formatting: the JSON text of an ErrorResponse\<close>

text \<open>
  \<open>FormatError\<close> hands an \<open>ErrorResponse\<close> to \<open>json.MarshalIndent\<close>, and the
  package's tests read the text back with \<open>json.Unmarshal\<close>. Both are library code
  (\<open>encoding/json\<close>, \<open>unicode/utf8\<close>, \<open>unicode/utf16\<close>); what follows models the part
  of them that an \<open>ErrorResponse\<close>, a struct of three strings, exercises, on bytes.
\<close>

definition byte :: "char \<Rightarrow> nat" where
  "byte c = of_char c"

definition dquote :: char where
  "dquote = CHR 0x22"

definition backslash :: char where
  "backslash = CHR 0x5C"

subsection \<open>unicode/utf8\<close>

text \<open>
  \<open>utf8.DecodeRuneInString\<close> reads one encoded rune. \<open>rune_width s\<close> is the size it
  returns when the head of \<open>s\<close> is a valid encoding (1 to 4), and 0 when it returns
  \<open>RuneError\<close> with size 1 (an invalid or truncated encoding) or size 0 (the empty
  string). The first byte fixes the size and the range accepted for the second byte;
  every later byte is a continuation byte.
\<close>

definition first_size :: "nat \<Rightarrow> nat" where
  "first_size x =
     (if 0xC2 \<le> x \<and> x \<le> 0xDF then 2
      else if 0xE0 \<le> x \<and> x \<le> 0xEF then 3
      else if 0xF0 \<le> x \<and> x \<le> 0xF4 then 4
      else 0)"

definition accept_lo :: "nat \<Rightarrow> nat" where
  "accept_lo x = (if x = 0xE0 then 0xA0 else if x = 0xF0 then 0x90 else 0x80)"

definition accept_hi :: "nat \<Rightarrow> nat" where
  "accept_hi x = (if x = 0xED then 0x9F else if x = 0xF4 then 0x8F else 0xBF)"

definition continuation :: "char \<Rightarrow> bool" where
  "continuation c = (0x80 \<le> byte c \<and> byte c \<le> 0xBF)"

fun rune_width :: "string \<Rightarrow> nat" where
  "rune_width [] = 0"
| "rune_width (s0 # s) =
     (if byte s0 < 0x80 then 1
      else (let sz = first_size (byte s0); more = take (sz - 1) s
            in if sz = 0 then 0
               else if length more < sz - 1 then 0
               else if byte (hd more) < accept_lo (byte s0)
                       \<or> accept_hi (byte s0) < byte (hd more) then 0
               else if \<not> list_all continuation (tl more) then 0
               else sz))"

text \<open>\<open>utf8.ValidString\<close>: the string is a sequence of valid encodings.\<close>

fun ValidString :: "string \<Rightarrow> bool" where
  "ValidString [] = True"
| "ValidString (c # s) =
     (if byte c < 0x80 then ValidString s
      else rune_width (c # s) \<noteq> 0 \<and> ValidString (drop (rune_width (c # s) - 1) s))"

text \<open>
  \<open>utf8.AppendRune\<close>: the encoding of a code point, with the replacement character
  \<open>U+FFFD\<close> for a surrogate or a value beyond \<open>U+10FFFF\<close>.
\<close>

definition EncodeRune :: "nat \<Rightarrow> string" where
  "EncodeRune r =
     (if r \<le> 0x7F then [char_of r]
      else if r \<le> 0x7FF then [char_of (0xC0 + r div 64), char_of (0x80 + r mod 64)]
      else if r > 0x10FFFF \<or> (0xD800 \<le> r \<and> r \<le> 0xDFFF) then [CHR 0xEF, CHR 0xBF, CHR 0xBD]
      else if r \<le> 0xFFFF
        then [char_of (0xE0 + r div 4096), char_of (0x80 + (r div 64) mod 64),
              char_of (0x80 + r mod 64)]
      else [char_of (0xF0 + r div 262144), char_of (0x80 + (r div 4096) mod 64),
            char_of (0x80 + (r div 64) mod 64), char_of (0x80 + r mod 64)])"

subsection \<open>encoding/json: writing\<close>

definition hex :: "nat \<Rightarrow> char" where
  "hex n = ''0123456789abcdef'' ! n"

text \<open>
  \<open>htmlSafeSet\<close>: the ASCII bytes written unescaped, that is every byte from the space
  to \<open>0x7F\<close> except the double quote, the backslash, the ampersand and the two angle
  brackets.
\<close>

definition htmlSafeSet :: "char \<Rightarrow> bool" where
  "htmlSafeSet c =
     (0x20 \<le> byte c \<and> byte c < 0x80 \<and> c \<noteq> dquote \<and> c \<noteq> backslash
      \<and> c \<noteq> CHR ''&'' \<and> c \<noteq> CHR ''<'' \<and> c \<noteq> CHR ''>'')"

text \<open>
  The loop of \<open>appendString\<close> in the mode \<open>Marshal\<close> runs it in, where the ampersand
  and the angle brackets are escaped too. An ASCII
  byte outside \<open>htmlSafeSet\<close> is written as a two-character escape or as a
  backslash, \<open>u00\<close> and its two hexadecimal digits; an invalid byte is written as
  the escape of the replacement character \<open>U+FFFD\<close>; the line and paragraph
  separators \<open>U+2028\<close> and \<open>U+2029\<close>, whose encodings are \<open>E2 80 A8\<close> and
  \<open>E2 80 A9\<close>, are written as their escapes; every other valid encoding is copied.
\<close>

fun escape :: "string \<Rightarrow> string" where
  "escape [] = []"
| "escape (b # src) =
     (if byte b < 0x80 then
        (if htmlSafeSet b then [b]
         else if b = backslash \<or> b = dquote then [backslash, b]
         else if b = CHR 0x08 then [backslash, CHR ''b'']
         else if b = CHR 0x0C then [backslash, CHR ''f'']
         else if b = CHR 0x0A then [backslash, CHR ''n'']
         else if b = CHR 0x0D then [backslash, CHR ''r'']
         else if b = CHR 0x09 then [backslash, CHR ''t'']
         else [backslash, CHR ''u'', CHR ''0'', CHR ''0'', hex (byte b div 16),
               hex (byte b mod 16)])
        @ escape src
      else (let size = rune_width (b # src)
            in if size = 0 then [backslash, CHR ''u'', CHR ''f'', CHR ''f'', CHR ''f'', CHR ''d'']
                                @ escape src
               else if take size (b # src) = [CHR 0xE2, CHR 0x80, CHR 0xA8]
                 then [backslash, CHR ''u'', CHR ''2'', CHR ''0'', CHR ''2'', CHR ''8'']
                      @ escape (drop (size - 1) src)
               else if take size (b # src) = [CHR 0xE2, CHR 0x80, CHR 0xA9]
                 then [backslash, CHR ''u'', CHR ''2'', CHR ''0'', CHR ''2'', CHR ''9'']
                      @ escape (drop (size - 1) src)
               else take size (b # src) @ escape (drop (size - 1) src)))"

definition appendString :: "string \<Rightarrow> string" where
  "appendString src = [dquote] @ escape src @ [dquote]"

text \<open>
  The struct with its tags: \<open>error\<close>, and \<open>command\<close> and \<open>stderr\<close> with
  \<open>omitempty\<close>.
\<close>

record ErrorResponse =
  ErrorResponse_Error :: string
  ErrorResponse_Command :: string
  ErrorResponse_Stderr :: string

text \<open>
  \<open>MarshalIndent(resp, "", "  ")\<close> on an \<open>ErrorResponse\<close>: \<open>Marshal\<close> writes the fields
  in declaration order and leaves out an \<open>omitempty\<close> string of length 0; the indenter
  starts a line of two spaces for each member, puts a space after each colon and closes
  the object on a line of its own.
\<close>

fun indent_members :: "(string \<times> string) list \<Rightarrow> string" where
  "indent_members [] = []"
| "indent_members [(name, v)] =
     [CHR 0x0A] @ ''  '' @ appendString name @ '': '' @ appendString v @ [CHR 0x0A]"
| "indent_members ((name, v) # m # ms) =
     [CHR 0x0A] @ ''  '' @ appendString name @ '': '' @ appendString v @ '',''
     @ indent_members (m # ms)"

definition MarshalIndent :: "ErrorResponse \<Rightarrow> string" where
  "MarshalIndent resp =
     ''{''
     @ indent_members
         ([(''error'', ErrorResponse_Error resp)]
          @ (if ErrorResponse_Command resp = '''' then []
             else [(''command'', ErrorResponse_Command resp)])
          @ (if ErrorResponse_Stderr resp = '''' then []
             else [(''stderr'', ErrorResponse_Stderr resp)]))
     @ ''}''"

text \<open>\<open>FormatError\<close>; the error is given by the text of its \<open>Error()\<close> method.\<close>

definition FormatError :: "string \<Rightarrow> string \<Rightarrow> string \<Rightarrow> string" where
  "FormatError err command stderr =
     MarshalIndent \<lparr>ErrorResponse_Error = err, ErrorResponse_Command = command,
                    ErrorResponse_Stderr = stderr\<rparr>"

subsection \<open>encoding/json: reading\<close>

definition hexval :: "char \<Rightarrow> nat option" where
  "hexval c =
     (if 0x30 \<le> byte c \<and> byte c \<le> 0x39 then Some (byte c - 0x30)
      else if 0x61 \<le> byte c \<and> byte c \<le> 0x66 then Some (byte c - 0x61 + 10)
      else if 0x41 \<le> byte c \<and> byte c \<le> 0x46 then Some (byte c - 0x41 + 10)
      else None)"

text \<open>\<open>getu4\<close>: the value of the four hexadecimal digits of a \<open>u\<close> escape at the head of the
  string, if it is there.\<close>

definition getu4 :: "string \<Rightarrow> nat option" where
  "getu4 s =
     (case s of
        b # u # h0 # h1 # h2 # h3 # rest \<Rightarrow>
          (if b = backslash \<and> u = CHR ''u'' then
             (case (hexval h0, hexval h1, hexval h2, hexval h3) of
                (Some d0, Some d1, Some d2, Some d3) \<Rightarrow> Some (((d0 * 16 + d1) * 16 + d2) * 16 + d3)
              | _ \<Rightarrow> None)
           else None)
      | _ \<Rightarrow> None)"

text \<open>
  The scanner's walk through a string literal, from just after the opening quote:
  it returns the bytes up to the closing quote and the input after it, and fails on a
  control character, an unknown escape or the end of the input.
\<close>

fun scan_string :: "string \<Rightarrow> (string \<times> string) option" where
  "scan_string [] = None"
| "scan_string (c # s) =
     (if c = dquote then Some ([], s)
      else if c = backslash then
        (case s of
           [] \<Rightarrow> None
         | e # s' \<Rightarrow>
             if e = CHR ''b'' \<or> e = CHR ''f'' \<or> e = CHR ''n'' \<or> e = CHR ''r'' \<or> e = CHR ''t''
                \<or> e = backslash \<or> e = CHR ''/'' \<or> e = dquote
             then map_option (\<lambda>(lit, rest). (c # e # lit, rest)) (scan_string s')
             else if e = CHR ''u'' then
               (case getu4 (c # s) of
                  None \<Rightarrow> None
                | Some rr \<Rightarrow>
                    map_option (\<lambda>(lit, rest). (c # e # take 4 s' @ lit, rest))
                      (scan_string (drop 4 s')))
             else None)
      else if byte c < 0x20 then None
      else map_option (\<lambda>(lit, rest). (c # lit, rest)) (scan_string s))"

text \<open>
  \<open>unquoteBytes\<close> on the bytes between the quotes: escapes are replaced by what they
  stand for, a \<open>u\<close> escape by the encoding of its code point (two of them by one code
  point when they are a surrogate pair), and a byte that is not part of a valid encoding
  by the replacement character. Decoding and re-encoding a valid encoding gives back
  its bytes, which is how it is written here.
\<close>

fun unquote :: "string \<Rightarrow> string option" where
  "unquote [] = Some []"
| "unquote (c # s) =
     (if c = backslash then
        (case s of
           [] \<Rightarrow> None
         | e # s' \<Rightarrow>
             if e = dquote \<or> e = backslash \<or> e = CHR ''/'' \<or> e = CHR 0x27
             then map_option ((#) e) (unquote s')
             else if e = CHR ''b'' then map_option ((#) (CHR 0x08)) (unquote s')
             else if e = CHR ''f'' then map_option ((#) (CHR 0x0C)) (unquote s')
             else if e = CHR ''n'' then map_option ((#) (CHR 0x0A)) (unquote s')
             else if e = CHR ''r'' then map_option ((#) (CHR 0x0D)) (unquote s')
             else if e = CHR ''t'' then map_option ((#) (CHR 0x09)) (unquote s')
             else if e = CHR ''u'' then
               (case getu4 (c # s) of
                  None \<Rightarrow> None
                | Some rr \<Rightarrow>
                    if 0xD800 \<le> rr \<and> rr < 0xE000 then
                      (case getu4 (drop 4 s') of
                         None \<Rightarrow> map_option ((@) (EncodeRune 0xFFFD)) (unquote (drop 4 s'))
                       | Some rr1 \<Rightarrow>
                           if rr < 0xDC00 \<and> 0xDC00 \<le> rr1 \<and> rr1 < 0xE000
                           then map_option
                                  ((@) (EncodeRune
                                          ((rr - 0xD800) * 1024 + (rr1 - 0xDC00) + 0x10000)))
                                  (unquote (drop 10 s'))
                           else map_option ((@) (EncodeRune 0xFFFD)) (unquote (drop 4 s')))
                    else map_option ((@) (EncodeRune rr)) (unquote (drop 4 s')))
             else None)
      else if c = dquote \<or> byte c < 0x20 then None
      else if byte c < 0x80 then map_option ((#) c) (unquote s)
      else (let size = rune_width (c # s)
            in if size = 0 then map_option ((@) (EncodeRune 0xFFFD)) (unquote s)
               else map_option ((@) (take size (c # s))) (unquote (drop (size - 1) s))))"

definition isSpace :: "char \<Rightarrow> bool" where
  "isSpace c = (c = CHR '' '' \<or> c = CHR 0x09 \<or> c = CHR 0x0D \<or> c = CHR 0x0A)"

definition skipSpace :: "string \<Rightarrow> string" where
  "skipSpace s = dropWhile isSpace s"

text \<open>A string literal at the head of the input: its value and the input after it.\<close>

definition string_literal :: "string \<Rightarrow> (string \<times> string) option" where
  "string_literal s =
     (case s of
        [] \<Rightarrow> None
      | q # s' \<Rightarrow>
          if q \<noteq> dquote then None
          else (case scan_string s' of
                  None \<Rightarrow> None
                | Some (lit, rest) \<Rightarrow>
                    (case unquote lit of None \<Rightarrow> None | Some v \<Rightarrow> Some (v, rest))))"

text \<open>
  \<open>Unmarshal\<close> into an \<open>ErrorResponse\<close>, for a document that is an object whose
  members are named \<open>error\<close>, \<open>command\<close> or \<open>stderr\<close> and hold strings, which is every
  document \<open>FormatError\<close> writes. \<open>None\<close> is an error of \<open>Unmarshal\<close> or a document of
  another shape. A member overwrites its field of the target; a field without a member
  keeps the value the target had.
\<close>

definition store_member :: "string \<Rightarrow> string \<Rightarrow> ErrorResponse \<Rightarrow> ErrorResponse option" where
  "store_member name v resp =
     (if name = ''error'' then Some (resp\<lparr>ErrorResponse_Error := v\<rparr>)
      else if name = ''command'' then Some (resp\<lparr>ErrorResponse_Command := v\<rparr>)
      else if name = ''stderr'' then Some (resp\<lparr>ErrorResponse_Stderr := v\<rparr>)
      else None)"

function members :: "ErrorResponse \<Rightarrow> string \<Rightarrow> ErrorResponse option" where
  "members resp s =
     (case string_literal s of
        None \<Rightarrow> None
      | Some (name, s1) \<Rightarrow>
          (case skipSpace s1 of
             [] \<Rightarrow> None
           | c # s2 \<Rightarrow>
               if c \<noteq> CHR '':'' then None
               else (case string_literal (skipSpace s2) of
                       None \<Rightarrow> None
                     | Some (v, s3) \<Rightarrow>
                         (case store_member name v resp of
                            None \<Rightarrow> None
                          | Some resp' \<Rightarrow>
                              (case skipSpace s3 of
                                 [] \<Rightarrow> None
                               | d # s4 \<Rightarrow>
                                   if d = CHR '','' then members resp' (skipSpace s4)
                                   else if d = CHR ''}''
                                     then (if skipSpace s4 = [] then Some resp' else None)
                                   else None)))))"
  by pat_completeness auto
termination
proof (relation "measure (\<lambda>(resp, s). length s)")
  show "wf (measure (\<lambda>(resp, s). length s))" by simp
next
  have scan_string_shorter: "scan_string s = Some (lit, rest) \<Longrightarrow> length rest < length s"
    for s lit rest
  proof (induction s arbitrary: lit rest rule: scan_string.induct)
    case 1
    then show ?case by simp
  next
    case (2 c s)
    show ?case
    proof (cases "c = dquote")
      case True
      with "2.prems" show ?thesis by simp
    next
      case nq: False
      show ?thesis
      proof (cases "c = backslash")
        case True
        show ?thesis
        proof (cases s)
          case Nil
          with "2.prems" nq True show ?thesis by simp
        next
          case (Cons e s')
          consider (simple) "e = CHR ''b'' \<or> e = CHR ''f'' \<or> e = CHR ''n'' \<or> e = CHR ''r''
                \<or> e = CHR ''t'' \<or> e = backslash \<or> e = CHR ''/'' \<or> e = dquote"
            | (u) "\<not> (e = CHR ''b'' \<or> e = CHR ''f'' \<or> e = CHR ''n'' \<or> e = CHR ''r''
                \<or> e = CHR ''t'' \<or> e = backslash \<or> e = CHR ''/'' \<or> e = dquote)" "e = CHR ''u''"
            | (bad) "\<not> (e = CHR ''b'' \<or> e = CHR ''f'' \<or> e = CHR ''n'' \<or> e = CHR ''r''
                \<or> e = CHR ''t'' \<or> e = backslash \<or> e = CHR ''/'' \<or> e = dquote)" "e \<noteq> CHR ''u''"
            by blast
          then show ?thesis
          proof cases
            case simple
            with "2.prems" nq True Cons
            obtain lit' where "scan_string s' = Some (lit', rest)"
              by (auto split: prod.splits)
            with "2.IH"(1) [OF nq True Cons simple] have "length rest < length s'" by blast
            with Cons show ?thesis by simp
          next
            case u
            with "2.prems" nq True Cons
            obtain rr lit' where g: "getu4 (c # s) = Some rr"
              and sc: "scan_string (drop 4 s') = Some (lit', rest)"
              by (auto split: option.splits prod.splits)
            from "2.IH"(2) [OF nq True Cons u(1) u(2) g sc]
            have "length rest < length (drop 4 s')" .
            with Cons show ?thesis by simp
          next
            case bad
            with "2.prems" nq True Cons show ?thesis by simp
          qed
        qed
      next
        case nb: False
        with "2.prems" nq obtain lit' where ge: "\<not> byte c < 0x20"
          and sc: "scan_string s = Some (lit', rest)"
          by (auto split: if_splits prod.splits)
        from "2.IH"(3) [OF nq nb ge sc] show ?thesis by simp
      qed
    qed
  qed
  have string_literal_shorter: "string_literal s = Some (v, rest) \<Longrightarrow> length rest < length s"
    for s v rest
    unfolding string_literal_def
    by (auto split: list.splits if_splits option.splits prod.splits dest: scan_string_shorter)
  have length_skipSpace: "length (skipSpace s) \<le> length s" for s
    unfolding skipSpace_def by (rule length_dropWhile_le)
  fix resp :: ErrorResponse and s x2 name s1 c s2 x2a v s3 resp' d s4
  assume 1: "string_literal s = Some x2" "(name, s1) = x2" "skipSpace s1 = c # s2"
    and 2: "string_literal (skipSpace s2) = Some x2a" "(v, s3) = x2a"
    and 3: "skipSpace s3 = d # s4"
  from 1 have a: "length s1 < length s"
    using string_literal_shorter by metis
  from 1(3) have b: "length s2 < length s1"
    using length_skipSpace [of s1] by simp
  from 2 have c: "length s3 < length (skipSpace s2)"
    using string_literal_shorter by metis
  from 3 have d: "length s4 < length s3"
    using length_skipSpace [of s3] by simp
  have "length (skipSpace s4) < length s"
    using a b c d length_skipSpace [of s2] length_skipSpace [of s4] by linarith
  then show "((resp', skipSpace s4), (resp, s)) \<in> measure (\<lambda>(resp, s). length s)"
    by simp
qed

definition Unmarshal :: "string \<Rightarrow> ErrorResponse \<Rightarrow> ErrorResponse option" where
  "Unmarshal data resp =
     (case skipSpace data of
        [] \<Rightarrow> None
      | c # s \<Rightarrow>
          if c \<noteq> CHR ''{'' then None
          else (case skipSpace s of
                  [] \<Rightarrow> None
                | c' # s' \<Rightarrow>
                    if c' = CHR ''}'' then (if skipSpace s' = [] then Some resp else None)
                    else members resp (c' # s')))"

declare rune_width.simps(2) [simp del]
declare ValidString.simps(2) [simp del]
declare escape.simps(2) [simp del]
declare scan_string.simps(2) [simp del]
declare unquote.simps(2) [simp del]
declare members.simps [simp del]

section \<open>Empty values are no-ops\<close>

text \<open>
  C2. For every builder state and flag name, \<open>WithFlag(name, "")\<close>,
  \<open>WithArrayFlag(name, "")\<close>, \<open>WithProject("")\<close>, \<open>WithRegion("")\<close> and
  \<open>WithZone("")\<close> return the builder state unchanged (all fields, the executor included).
\<close>

theorem empty_value_noop:
  "WithFlag name '''' b = b \<and> WithArrayFlag name '''' b = b \<and>
   WithProject '''' b = b \<and> WithRegion '''' b = b \<and> WithZone '''' b = b"
  by (simp add: WithFlag_def WithArrayFlag_def WithProject_def WithRegion_def WithZone_def)

section \<open>Build as a concatenation\<close>

lemma range_flags_conv:
  "range_flags m ks args =
     args @ concat (map (\<lambda>n. case m n of None \<Rightarrow> [] | Some v \<Rightarrow> [flagToken n v]) ks)"
  unfolding range_flags_def
  by (induction ks arbitrary: args) (auto split: option.splits)

lemma foldl_snoc_map: "foldl (\<lambda>args x. args @ [f x]) args xs = args @ map f xs"
  by (induction xs arbitrary: args) auto

lemma range_arrayFlags_conv:
  "range_arrayFlags m ks args =
     args @ concat (map (\<lambda>n. case m n of None \<Rightarrow> [] | Some vs \<Rightarrow> map (flagToken n) vs) ks)"
  unfolding range_arrayFlags_def
  by (induction ks arbitrary: args) (auto split: option.splits simp: foldl_snoc_map)

lemma Build_conv:
  "Build fo ao b =
     components b
     @ concat (map (\<lambda>n. case flags b n of None \<Rightarrow> [] | Some v \<Rightarrow> [flagToken n v]) fo)
     @ concat (map (\<lambda>n. case arrayFlags b n of None \<Rightarrow> [] | Some vs \<Rightarrow> map (flagToken n) vs) ao)
     @ map boolToken (boolFlags b)
     @ (if project b = '''' then [] else [''--project='' @ project b])
     @ (if format b = '''' then [] else [''--format='' @ format b])"
  by (simp add: Build_def Let_def range_flags_conv range_arrayFlags_conv foldl_snoc_map)

lemma flagToken_fun: "flagToken n = (\<lambda>v. ''--'' @ n @ ''='' @ v)"
  by (rule ext) (simp add: flagToken_def)

lemma concat_map_in_dom:
  "set ks \<subseteq> dom m \<Longrightarrow>
   concat (map (\<lambda>n. case m n of None \<Rightarrow> [] | Some v \<Rightarrow> f n v) ks)
     = concat (map (\<lambda>n. f n (the (m n))) ks)"
  by (induction ks) auto

lemma mset_range_graph:
  assumes "range_order m ks"
  shows "mset (map (\<lambda>n. g n (the (m n))) ks)
           = image_mset (\<lambda>(n, v). g n v) (mset_set (Map.graph m))"
proof -
  have d: "distinct ks" and s: "set ks = dom m"
    using assms by (auto simp: range_order_def)
  have inj: "inj_on (\<lambda>n. (n, the (m n))) (dom m)"
    by (rule inj_onI) simp
  have "mset_set (Map.graph m) = image_mset (\<lambda>n. (n, the (m n))) (mset_set (dom m))"
    by (simp add: graph_eq_to_snd_dom image_mset_mset_set [OF inj])
  also have "mset_set (dom m) = mset ks"
    using d s mset_set_set by metis
  finally show ?thesis
    by (simp add: image_mset.compositionality comp_def)
qed

text \<open>
  C1. For every builder state, and whatever order the runtime ranges over the two maps
  in, \<open>Build()\<close> is: the components in order; one \<open>--name=value\<close> token per entry of
  \<open>flags\<close> (as a multiset, the image of the map's entries); for each key of
  \<open>arrayFlags\<close>, visited once, one \<open>--name=value\<close> token per stored value in stored
  order; one \<open>--name\<close> token per entry of \<open>boolFlags\<close> in order; then
  \<open>--project=\<close> followed by the project if it is non-empty; then \<open>--format=\<close> followed
  by the format if it is non-empty; and nothing else.
\<close>

theorem Build_structure:
  assumes "range_order (flags b) fo" and "range_order (arrayFlags b) ao"
  shows "Build fo ao b =
           components b
           @ map (\<lambda>n. ''--'' @ n @ ''='' @ the (flags b n)) fo
           @ concat (map (\<lambda>n. map (\<lambda>v. ''--'' @ n @ ''='' @ v) (the (arrayFlags b n))) ao)
           @ map (\<lambda>f. ''--'' @ f) (boolFlags b)
           @ (if project b = '''' then [] else [''--project='' @ project b])
           @ (if format b = '''' then [] else [''--format='' @ format b])
         \<and> mset (map (\<lambda>n. ''--'' @ n @ ''='' @ the (flags b n)) fo)
             = image_mset (\<lambda>(n, v). ''--'' @ n @ ''='' @ v) (mset_set (Map.graph (flags b)))
         \<and> mset ao = mset_set (dom (arrayFlags b))"
proof -
  have f: "set fo \<subseteq> dom (flags b)" and a: "set ao \<subseteq> dom (arrayFlags b)"
    using assms by (auto simp: range_order_def)
  have 1: "concat (map (\<lambda>n. case flags b n of None \<Rightarrow> [] | Some v \<Rightarrow> [flagToken n v]) fo)
           = map (\<lambda>n. ''--'' @ n @ ''='' @ the (flags b n)) fo"
    using concat_map_in_dom [OF f, of "\<lambda>n v. [flagToken n v]"] by (simp add: flagToken_def)
  have 2: "concat (map (\<lambda>n. case arrayFlags b n of None \<Rightarrow> []
                             | Some vs \<Rightarrow> map (flagToken n) vs) ao)
           = concat (map (\<lambda>n. map (\<lambda>v. ''--'' @ n @ ''='' @ v) (the (arrayFlags b n))) ao)"
    using concat_map_in_dom [OF a, of "\<lambda>n vs. map (flagToken n) vs"]
    by (simp add: flagToken_fun)
  have 3: "map boolToken (boolFlags b) = map (\<lambda>f. ''--'' @ f) (boolFlags b)"
    by (simp add: boolToken_def)
  have 4: "mset ao = mset_set (dom (arrayFlags b))"
    using assms(2) mset_set_set by (metis range_order_def)
  show ?thesis
    using mset_range_graph [OF assms(1), of "\<lambda>n v. ''--'' @ n @ ''='' @ v"] 4
    by (simp only: Build_conv 1 2 3)
qed

lemma deploy_flags:
  "flags (WithBoolFlag ''quiet'' (WithArrayFlag ''env'' ''B=2'' (WithArrayFlag ''env'' ''A=1''
     (WithFlag ''limit'' ''50'' (Command (New newTestConfig) [''run'', ''deploy'']))))) =
   [''limit'' \<mapsto> ''50'']"
  by (simp add: WithBoolFlag_def WithArrayFlag_def WithFlag_def Command_def)

lemma deploy_arrayFlags:
  "arrayFlags (WithBoolFlag ''quiet'' (WithArrayFlag ''env'' ''B=2'' (WithArrayFlag ''env'' ''A=1''
     (WithFlag ''limit'' ''50'' (Command (New newTestConfig) [''run'', ''deploy'']))))) =
   [''env'' \<mapsto> [''A=1'', ''B=2'']]"
  by (simp add: WithBoolFlag_def WithArrayFlag_def WithFlag_def Command_def)

theorem Build_structure_witness:
  "range_order (flags (WithBoolFlag ''quiet'' (WithArrayFlag ''env'' ''B=2''
       (WithArrayFlag ''env'' ''A=1'' (WithFlag ''limit'' ''50''
         (Command (New newTestConfig) [''run'', ''deploy'']))))))
     [''limit'']
   \<and> range_order (arrayFlags (WithBoolFlag ''quiet'' (WithArrayFlag ''env'' ''B=2''
       (WithArrayFlag ''env'' ''A=1'' (WithFlag ''limit'' ''50''
         (Command (New newTestConfig) [''run'', ''deploy'']))))))
     [''env'']
   \<and> Build [''limit''] [''env'']
       (WithBoolFlag ''quiet'' (WithArrayFlag ''env'' ''B=2''
         (WithArrayFlag ''env'' ''A=1'' (WithFlag ''limit'' ''50''
           (Command (New newTestConfig) [''run'', ''deploy''])))))
     = [''run'', ''deploy'', ''--limit=50'', ''--env=A=1'', ''--env=B=2'', ''--quiet'',
        ''--project=default-project'', ''--format=json'']"
proof -
  let ?b = "WithBoolFlag ''quiet'' (WithArrayFlag ''env'' ''B=2''
       (WithArrayFlag ''env'' ''A=1'' (WithFlag ''limit'' ''50''
         (Command (New newTestConfig) [''run'', ''deploy'']))))"
  have h1: "range_order (flags ?b) [''limit'']"
    by (simp add: deploy_flags range_order_def)
  have h2: "range_order (arrayFlags ?b) [''env'']"
    by (simp add: deploy_arrayFlags range_order_def)
  have parts: "components ?b = [''run'', ''deploy''] \<and> boolFlags ?b = [''quiet'']
      \<and> project ?b = ''default-project'' \<and> format ?b = ''json''"
    by (simp add: WithBoolFlag_def WithArrayFlag_def WithFlag_def Command_def New_def
        newTestConfig_def)
  from Build_structure [OF h1 h2]
  have "Build [''limit''] [''env''] ?b
     = [''run'', ''deploy'', ''--limit=50'', ''--env=A=1'', ''--env=B=2'', ''--quiet'',
        ''--project=default-project'', ''--format=json'']"
    by (simp add: parts deploy_flags deploy_arrayFlags)
  with h1 h2 show ?thesis by simp
qed

section \<open>What the setters leave alone\<close>

lemma components_apply_setter: "components (apply_setter b c) = components b"
  by (cases c)
    (simp_all add: WithProject_def WithRegion_def WithZone_def WithFlag_def WithArrayFlag_def
      WithBoolFlag_def WithFormat_def WithTextFormat_def)

lemma components_apply_setters: "components (apply_setters b cs) = components b"
  unfolding apply_setters_def
  by (induction cs arbitrary: b) (simp_all add: components_apply_setter)

lemma project_apply_setter: "\<not> overrides_project c \<Longrightarrow> project (apply_setter b c) = project b"
  by (cases c)
    (simp_all add: WithProject_def WithRegion_def WithZone_def WithFlag_def WithArrayFlag_def
      WithBoolFlag_def WithFormat_def WithTextFormat_def)

lemma project_apply_setters:
  "\<not> list_ex overrides_project cs \<Longrightarrow> project (apply_setters b cs) = project b"
  unfolding apply_setters_def
  by (induction cs arbitrary: b) (simp_all add: project_apply_setter)

lemma format_apply_setter: "\<not> sets_format c \<Longrightarrow> format (apply_setter b c) = format b"
  by (cases c)
    (simp_all add: WithProject_def WithRegion_def WithZone_def WithFlag_def WithArrayFlag_def
      WithBoolFlag_def WithFormat_def WithTextFormat_def)

lemma format_apply_setters:
  "\<not> list_ex sets_format cs \<Longrightarrow> format (apply_setters b cs) = format b"
  unfolding apply_setters_def
  by (induction cs arbitrary: b) (simp_all add: format_apply_setter)

section \<open>Default inheritance of the project\<close>

text \<open>
  C3. A builder created by \<open>Command\<close> from a configuration whose project is the
  non-empty \<open>P\<close>, and changed by any setter calls none of which overrides the project,
  builds a list containing \<open>--project=P\<close>. \<open>WithProject(V)\<close> with a non-empty \<open>V\<close>
  puts \<open>--project=V\<close> in the place of that token and leaves the rest of the list as it
  was. \<open>WithProject("")\<close> builds the same list as before.
\<close>

theorem project_default_inheritance:
  assumes "Project (config e) = P" and "P \<noteq> ''''"
    and "\<not> list_ex overrides_project cs" and "V \<noteq> ''''"
  shows "''--project='' @ P \<in> set (Build fo ao (apply_setters (Command e comps) cs))
       \<and> ''--project='' @ V
            \<in> set (Build fo ao (WithProject V (apply_setters (Command e comps) cs)))
       \<and> (\<exists>pre suf.
             Build fo ao (apply_setters (Command e comps) cs) = pre @ [''--project='' @ P] @ suf
           \<and> Build fo ao (WithProject V (apply_setters (Command e comps) cs))
               = pre @ [''--project='' @ V] @ suf)
       \<and> Build fo ao (WithProject '''' (apply_setters (Command e comps) cs))
           = Build fo ao (apply_setters (Command e comps) cs)"
proof -
  let ?b = "apply_setters (Command e comps) cs"
  let ?pre = "components ?b
     @ concat (map (\<lambda>n. case flags ?b n of None \<Rightarrow> [] | Some v \<Rightarrow> [flagToken n v]) fo)
     @ concat (map (\<lambda>n. case arrayFlags ?b n of None \<Rightarrow> []
                         | Some vs \<Rightarrow> map (flagToken n) vs) ao)
     @ map boolToken (boolFlags ?b)"
  let ?suf = "if format ?b = '''' then [] else [''--format='' @ format ?b]"
  have p: "project ?b = P"
    using assms(1,3) by (simp add: project_apply_setters Command_def)
  have 1: "Build fo ao ?b = ?pre @ [''--project='' @ P] @ ?suf"
    using assms(2) p by (simp add: Build_conv)
  have 2: "Build fo ao (WithProject V ?b) = ?pre @ [''--project='' @ V] @ ?suf"
    using assms(4) by (simp add: Build_conv WithProject_def)
  have 3: "Build fo ao (WithProject '''' ?b) = Build fo ao ?b"
    by (simp add: WithProject_def)
  have 4: "''--project='' @ P \<in> set (Build fo ao ?b)"
    by (subst 1) simp
  have 5: "''--project='' @ V \<in> set (Build fo ao (WithProject V ?b))"
    by (subst 2) simp
  from 1 2 have "\<exists>pre suf. Build fo ao ?b = pre @ [''--project='' @ P] @ suf
      \<and> Build fo ao (WithProject V ?b) = pre @ [''--project='' @ V] @ suf"
    by blast
  with 3 4 5 show ?thesis by blast
qed

theorem project_default_inheritance_witness:
  "Project (config (New newTestConfig)) = ''default-project''
   \<and> \<not> list_ex overrides_project [CallWithProject '''', CallWithFlag ''limit'' ''100'']
   \<and> ''--project=default-project''
        \<in> set (Build [''limit''] []
                 (apply_setters (Command (New newTestConfig) [''run'', ''services'', ''list''])
                    [CallWithProject '''', CallWithFlag ''limit'' ''100'']))
   \<and> ''--project=custom-project''
        \<in> set (Build [''limit''] []
                 (WithProject ''custom-project''
                   (apply_setters (Command (New newTestConfig) [''run'', ''services'', ''list''])
                      [CallWithProject '''', CallWithFlag ''limit'' ''100''])))"
proof -
  have h1: "Project (config (New newTestConfig)) = ''default-project''"
    by (simp add: New_def newTestConfig_def)
  have h2: "''default-project'' \<noteq> ''''" by simp
  have h3: "\<not> list_ex overrides_project [CallWithProject '''', CallWithFlag ''limit'' ''100'']"
    by simp
  have h4: "''custom-project'' \<noteq> ''''" by simp
  from project_default_inheritance [OF h1 h2 h3 h4, of "[''limit'']" "[]"
      "[''run'', ''services'', ''list'']"]
  show ?thesis using h1 h3 by simp
qed

section \<open>The format field\<close>

lemma prefix_format_project [simp]: "\<not> prefix ''--format='' (''--project='' @ p)"
  by simp

text \<open>
  C5, as the claim states it, fails: a flag named \<open>format\<close> is built into a
  \<open>--format=\<close> token whatever the format field holds.
\<close>

theorem format_duality_counterexample:
  "range_order (flags (WithTextFormat (WithFlag ''format'' ''yaml''
       (Command (New newTestConfig) [''run'', ''services'', ''list'']))))
     [''format'']
   \<and> range_order (arrayFlags (WithTextFormat (WithFlag ''format'' ''yaml''
       (Command (New newTestConfig) [''run'', ''services'', ''list'']))))
     []
   \<and> Build [''format''] []
       (WithTextFormat (WithFlag ''format'' ''yaml''
          (Command (New newTestConfig) [''run'', ''services'', ''list''])))
     = [''run'', ''services'', ''list'', ''--format=yaml'', ''--project=default-project'']
   \<and> prefix ''--format='' ''--format=yaml''"
  by (simp add: range_order_def Build_conv WithTextFormat_def WithFlag_def Command_def New_def
      newTestConfig_def flagToken_def)

text \<open>
  C5, amended. After \<open>WithTextFormat()\<close> the format field adds no token: the tokens of
  \<open>Build()\<close> that begin with \<open>--format=\<close> are exactly those among the tokens built from
  the components, flags, array flags and bool flags. For a builder made by \<open>Command\<close> on
  which no format-setting call was made, they are those same tokens followed by exactly
  one \<open>--format=json\<close>.
\<close>

theorem format_duality:
  assumes "\<not> list_ex sets_format cs"
  shows "filter (prefix ''--format='') (Build fo ao (WithTextFormat b))
           = filter (prefix ''--format='')
               (range_arrayFlags (arrayFlags b) ao (range_flags (flags b) fo (components b))
                @ map boolToken (boolFlags b))
       \<and> filter (prefix ''--format='') (Build fo ao (apply_setters (Command e comps) cs))
           = filter (prefix ''--format='')
               (range_arrayFlags (arrayFlags (apply_setters (Command e comps) cs)) ao
                  (range_flags (flags (apply_setters (Command e comps) cs)) fo
                     (components (apply_setters (Command e comps) cs)))
                @ map boolToken (boolFlags (apply_setters (Command e comps) cs)))
             @ [''--format=json'']"
proof -
  have f: "format (apply_setters (Command e comps) cs) = ''json''"
    using assms by (simp add: format_apply_setters Command_def)
  have 1: "filter (prefix ''--format='') (Build fo ao (WithTextFormat b))
           = filter (prefix ''--format='')
               (range_arrayFlags (arrayFlags b) ao (range_flags (flags b) fo (components b))
                @ map boolToken (boolFlags b))"
    by (simp add: Build_conv WithTextFormat_def range_flags_conv range_arrayFlags_conv)
  have 2: "filter (prefix ''--format='') (Build fo ao (apply_setters (Command e comps) cs))
           = filter (prefix ''--format='')
               (range_arrayFlags (arrayFlags (apply_setters (Command e comps) cs)) ao
                  (range_flags (flags (apply_setters (Command e comps) cs)) fo
                     (components (apply_setters (Command e comps) cs)))
                @ map boolToken (boolFlags (apply_setters (Command e comps) cs)))
             @ [''--format=json'']"
    by (simp add: Build_conv f range_flags_conv range_arrayFlags_conv)
  from 1 2 show ?thesis by (rule conjI)
qed

theorem format_duality_witness:
  "\<not> list_ex sets_format [CallWithProject ''p'', CallWithBoolFlag ''quiet'']
   \<and> filter (prefix ''--format='')
       (Build [] [] (apply_setters (Command (New newTestConfig) [''run'', ''services'', ''list''])
                       [CallWithProject ''p'', CallWithBoolFlag ''quiet'']))
     = [''--format=json'']
   \<and> filter (prefix ''--format='')
       (Build [] [] (WithTextFormat
          (apply_setters (Command (New newTestConfig) [''run'', ''services'', ''list''])
             [CallWithProject ''p'', CallWithBoolFlag ''quiet''])))
     = []"
proof -
  have h: "\<not> list_ex sets_format [CallWithProject ''p'', CallWithBoolFlag ''quiet'']"
    by simp
  from format_duality [OF h, of "[]" "[]"
      "apply_setters (Command (New newTestConfig) [''run'', ''services'', ''list''])
         [CallWithProject ''p'', CallWithBoolFlag ''quiet'']"
      "New newTestConfig" "[''run'', ''services'', ''list'']"]
  show ?thesis
    using h
    by (simp add: apply_setters_def WithProject_def WithBoolFlag_def Command_def
        range_flags_def range_arrayFlags_def boolToken_def)
qed

text \<open>
  C10, as the claim states it, fails in its last part: a flag named \<open>format\<close> is
  still built into a \<open>--format=\<close> token after \<open>WithFormat("")\<close>.
\<close>

theorem WithFormat_empty_counterexample:
  "range_order (flags (WithFormat '''' (WithFlag ''format'' ''value(name)''
       (Command (New newTestConfig) [''compute'', ''zones'', ''list'']))))
     [''format'']
   \<and> range_order (arrayFlags (WithFormat '''' (WithFlag ''format'' ''value(name)''
       (Command (New newTestConfig) [''compute'', ''zones'', ''list'']))))
     []
   \<and> Build [''format''] []
       (WithFormat '''' (WithFlag ''format'' ''value(name)''
          (Command (New newTestConfig) [''compute'', ''zones'', ''list''])))
     = [''compute'', ''zones'', ''list'', ''--format=value(name)'',
        ''--project=default-project'']
   \<and> prefix ''--format='' ''--format=value(name)''"
  by (simp add: range_order_def Build_conv WithFormat_def WithFlag_def Command_def New_def
      newTestConfig_def flagToken_def)

text \<open>
  C10, amended. For every builder state \<open>WithFormat("")\<close> gives the same state as
  \<open>WithTextFormat()\<close>: the format field is cleared rather than kept, so the call is a
  no-op only on a builder whose format is already empty. \<open>Build()\<close> then stops after
  the project step: it is the list built with format \<open>json\<close> without its final
  \<open>--format=json\<close> token, and its tokens that begin with \<open>--format=\<close> are exactly
  those among the tokens built from the components, flags, array flags and bool flags.
\<close>

theorem WithFormat_empty_clears:
  "WithFormat '''' b = WithTextFormat b
   \<and> format (WithFormat '''' b) = ''''
   \<and> (WithFormat '''' b = b) = (format b = '''')
   \<and> Build fo ao (WithFormat '''' b)
       = range_arrayFlags (arrayFlags b) ao (range_flags (flags b) fo (components b))
         @ map boolToken (boolFlags b)
         @ (if project b = '''' then [] else [''--project='' @ project b])
   \<and> Build fo ao (WithFormat ''json'' b) = Build fo ao (WithFormat '''' b) @ [''--format=json'']
   \<and> filter (prefix ''--format='') (Build fo ao (WithFormat '''' b))
       = filter (prefix ''--format='')
           (range_arrayFlags (arrayFlags b) ao (range_flags (flags b) fo (components b))
            @ map boolToken (boolFlags b))"
proof -
  have 1: "WithFormat '''' b = WithTextFormat b"
    by (simp add: WithFormat_def WithTextFormat_def)
  have 2: "format (WithFormat '''' b) = ''''"
    by (simp add: WithFormat_def)
  have 3: "(WithFormat '''' b = b) = (format b = '''')"
  proof
    assume "WithFormat '''' b = b"
    then have "format (WithFormat '''' b) = format b" by simp
    then show "format b = ''''" by (simp add: WithFormat_def)
  next
    assume "format b = ''''"
    then show "WithFormat '''' b = b" by (simp add: WithFormat_def)
  qed
  have 4: "Build fo ao (WithFormat '''' b)
       = range_arrayFlags (arrayFlags b) ao (range_flags (flags b) fo (components b))
         @ map boolToken (boolFlags b)
         @ (if project b = '''' then [] else [''--project='' @ project b])"
    by (simp add: Build_conv WithFormat_def range_flags_conv range_arrayFlags_conv)
  have 5: "Build fo ao (WithFormat ''json'' b)
       = Build fo ao (WithFormat '''' b) @ [''--format=json'']"
    by (simp add: Build_conv WithFormat_def)
  have 6: "filter (prefix ''--format='') (Build fo ao (WithFormat '''' b))
       = filter (prefix ''--format='')
           (range_arrayFlags (arrayFlags b) ao (range_flags (flags b) fo (components b))
            @ map boolToken (boolFlags b))"
    by (simp add: Build_conv WithFormat_def range_flags_conv range_arrayFlags_conv)
  from 1 2 3 4 5 6 show ?thesis by blast
qed

section \<open>Re-applying a setter\<close>

text \<open>
  C7, as the claim states it, fails: a second \<open>WithBoolFlag("quiet")\<close> appends a
  second entry.
\<close>

theorem idempotence_counterexample:
  "boolFlags (WithBoolFlag ''quiet'' (Command (New newTestConfig) [''run''])) = [''quiet'']
   \<and> boolFlags (WithBoolFlag ''quiet'' (WithBoolFlag ''quiet''
        (Command (New newTestConfig) [''run'']))) = [''quiet'', ''quiet'']
   \<and> WithBoolFlag ''quiet'' (WithBoolFlag ''quiet'' (Command (New newTestConfig) [''run'']))
       \<noteq> WithBoolFlag ''quiet'' (Command (New newTestConfig) [''run''])"
proof -
  have 1: "boolFlags (WithBoolFlag ''quiet'' (Command (New newTestConfig) [''run'']))
      = [''quiet'']"
    by (simp add: WithBoolFlag_def Command_def)
  have 2: "boolFlags (WithBoolFlag ''quiet'' (WithBoolFlag ''quiet''
        (Command (New newTestConfig) [''run'']))) = [''quiet'', ''quiet'']"
    by (simp add: WithBoolFlag_def Command_def)
  have 3: "WithBoolFlag ''quiet'' (WithBoolFlag ''quiet'' (Command (New newTestConfig) [''run'']))
       \<noteq> WithBoolFlag ''quiet'' (Command (New newTestConfig) [''run''])"
  proof
    assume "WithBoolFlag ''quiet'' (WithBoolFlag ''quiet'' (Command (New newTestConfig) [''run'']))
       = WithBoolFlag ''quiet'' (Command (New newTestConfig) [''run''])"
    then have "boolFlags (WithBoolFlag ''quiet'' (WithBoolFlag ''quiet''
         (Command (New newTestConfig) [''run''])))
       = boolFlags (WithBoolFlag ''quiet'' (Command (New newTestConfig) [''run'']))"
      by simp
    with 1 2 show False by simp
  qed
  from 1 2 3 show ?thesis by blast
qed

text \<open>
  C7, amended. \<open>WithProject\<close>, \<open>WithRegion\<close>, \<open>WithZone\<close>, \<open>WithFlag\<close>,
  \<open>WithFormat\<close> and \<open>WithTextFormat\<close> are idempotent: applied twice in succession
  with the same arguments they give the state one application gives.
  \<open>WithArrayFlag\<close> is idempotent exactly for the empty value, and \<open>WithBoolFlag\<close>
  never is: each application appends one more entry.
\<close>

theorem setter_idempotence:
  "WithProject p (WithProject p b) = WithProject p b
   \<and> WithRegion r (WithRegion r b) = WithRegion r b
   \<and> WithZone z (WithZone z b) = WithZone z b
   \<and> WithFlag n v (WithFlag n v b) = WithFlag n v b
   \<and> WithFormat f (WithFormat f b) = WithFormat f b
   \<and> WithTextFormat (WithTextFormat b) = WithTextFormat b
   \<and> (WithArrayFlag n v (WithArrayFlag n v b) = WithArrayFlag n v b) = (v = '''')
   \<and> WithBoolFlag n (WithBoolFlag n b) \<noteq> WithBoolFlag n b
   \<and> boolFlags (WithBoolFlag n (WithBoolFlag n b)) = boolFlags (WithBoolFlag n b) @ [n]"
proof -
  have 1: "WithProject p (WithProject p b) = WithProject p b"
    by (simp add: WithProject_def)
  have 2: "WithRegion r (WithRegion r b) = WithRegion r b"
    by (simp add: WithRegion_def)
  have 3: "WithZone z (WithZone z b) = WithZone z b"
    by (simp add: WithZone_def)
  have 4: "WithFlag n v (WithFlag n v b) = WithFlag n v b"
    by (simp add: WithFlag_def)
  have 5: "WithFormat f (WithFormat f b) = WithFormat f b"
    by (simp add: WithFormat_def)
  have 6: "WithTextFormat (WithTextFormat b) = WithTextFormat b"
    by (simp add: WithTextFormat_def)
  have 7: "(WithArrayFlag n v (WithArrayFlag n v b) = WithArrayFlag n v b) = (v = '''')"
  proof (cases "v = ''''")
    case True
    then show ?thesis by (simp add: WithArrayFlag_def)
  next
    case False
    have "arrayFlags (WithArrayFlag n v (WithArrayFlag n v b)) n
        \<noteq> arrayFlags (WithArrayFlag n v b) n"
      using False by (simp add: WithArrayFlag_def)
    then have "WithArrayFlag n v (WithArrayFlag n v b) \<noteq> WithArrayFlag n v b"
      by auto
    with False show ?thesis by simp
  qed
  have 9: "boolFlags (WithBoolFlag n (WithBoolFlag n b)) = boolFlags (WithBoolFlag n b) @ [n]"
    by (simp add: WithBoolFlag_def)
  then have "boolFlags (WithBoolFlag n (WithBoolFlag n b)) \<noteq> boolFlags (WithBoolFlag n b)"
    by simp
  then have 8: "WithBoolFlag n (WithBoolFlag n b) \<noteq> WithBoolFlag n b"
    by auto
  from 1 2 3 4 5 6 7 8 9 show ?thesis by blast
qed

section \<open>The components of a reachable builder\<close>

text \<open>
  C8, as the claim states it, fails: \<open>Command\<close> is variadic and accepts no components
  at all.
\<close>

theorem components_nonempty_counterexample:
  "components (apply_setters (Command (New newTestConfig) [])
                 [CallWithProject ''p'', CallWithBoolFlag ''quiet'']) = []"
  by (simp add: components_apply_setters Command_def)

text \<open>
  C8, amended. The components of a builder created by \<open>Command\<close> and mutated by any
  sequence of setter calls are the components \<open>Command\<close> was given, so they are
  non-empty exactly when \<open>Command\<close> was given at least one.
\<close>

theorem components_fixed:
  "components (apply_setters (Command e comps) cs) = comps
   \<and> (components (apply_setters (Command e comps) cs) \<noteq> []) = (comps \<noteq> [])"
  by (simp add: components_apply_setters Command_def)

section \<open>Execution: the structured payload\<close>

text \<open>
  C6. For every successful execution (\<open>cmd.Run()\<close> returned no error) the result's JSON
  payload is present if and only if the builder's format is \<open>json\<close> and the captured
  stdout is non-empty after trimming; when present it is the trimmed stdout, byte for
  byte, unchecked; otherwise it is absent. The library's \<open>TrimSpace\<close> maps the empty
  string to itself.
\<close>

theorem structured_payload:
  assumes "out_err (run (GCloudPath (config (executor b))) (Build fo ao b)) = None"
    and "TrimSpace '''' = ''''"
  shows "exec_error (Execute fo ao run TrimSpace b) = None
       \<and> JSON (exec_result (Execute fo ao run TrimSpace b))
           = (if format b = ''json''
                 \<and> TrimSpace (out_stdout (run (GCloudPath (config (executor b))) (Build fo ao b)))
                     \<noteq> ''''
              then Some (TrimSpace
                     (out_stdout (run (GCloudPath (config (executor b))) (Build fo ao b))))
              else None)
       \<and> Stdout (exec_result (Execute fo ao run TrimSpace b))
           = out_stdout (run (GCloudPath (config (executor b))) (Build fo ao b))"
proof -
  let ?out = "run (GCloudPath (config (executor b))) (Build fo ao b)"
  show ?thesis
  proof (cases "out_stdout ?out = ''''")
    case True
    with assms show ?thesis by (simp add: Execute_def Let_def)
  next
    case False
    with assms(1) show ?thesis by (simp add: Execute_def Let_def)
  qed
qed

lemma TrimSpace_ascii_Nil: "TrimSpace_ascii '''' = ''''"
  by (simp add: TrimSpace_ascii_def)

lemma TrimSpace_ascii_example: "TrimSpace_ascii '' [1] '' = ''[1]''"
  by (simp add: TrimSpace_ascii_def asciiSpace_def)

theorem structured_payload_witness:
  "out_err ((\<lambda>path args. \<lparr>out_stdout = '' [1] '', out_stderr = '''', out_err = None\<rparr>)
       (GCloudPath (config (executor (Command (New newTestConfig) [''run'']))))
       (Build [] [] (Command (New newTestConfig) [''run'']))) = None
   \<and> TrimSpace_ascii '''' = ''''
   \<and> JSON (exec_result (Execute [] []
        (\<lambda>path args. \<lparr>out_stdout = '' [1] '', out_stderr = '''', out_err = None\<rparr>)
        TrimSpace_ascii (Command (New newTestConfig) [''run''])))
     = Some ''[1]''
   \<and> JSON (exec_result (Execute [] []
        (\<lambda>path args. \<lparr>out_stdout = '' [1] '', out_stderr = '''', out_err = None\<rparr>)
        TrimSpace_ascii (WithTextFormat (Command (New newTestConfig) [''run'']))))
     = None"
proof -
  let ?run = "\<lambda>path args. \<lparr>out_stdout = '' [1] '', out_stderr = '''', out_err = None :: run_error option\<rparr>"
  have h1: "out_err (?run (GCloudPath (config (executor b))) (Build [] [] b)) = None" for b
    by simp
  have f1: "format (Command (New newTestConfig) [''run'']) = ''json''"
    by (simp add: Command_def)
  have f2: "format (WithTextFormat (Command (New newTestConfig) [''run''])) = ''''"
    by (simp add: WithTextFormat_def)
  from structured_payload [of ?run "Command (New newTestConfig) [''run'']" "[]" "[]"
      TrimSpace_ascii, OF h1 TrimSpace_ascii_Nil]
    structured_payload [of ?run "WithTextFormat (Command (New newTestConfig) [''run''])" "[]" "[]"
      TrimSpace_ascii, OF h1 TrimSpace_ascii_Nil]
  show ?thesis
    by (simp add: f1 f2 TrimSpace_ascii_example TrimSpace_ascii_Nil)
qed

section \<open>Execution: region injection\<close>

lemma filter_concat_map_single:
  "distinct ks \<Longrightarrow> r \<in> set ks \<Longrightarrow> \<forall>n \<in> set ks. n \<noteq> r \<longrightarrow> filter P (h n) = [] \<Longrightarrow>
   filter P (concat (map h ks)) = filter P (h r)"
proof (induction ks)
  case Nil
  then show ?case by simp
next
  case (Cons k ks)
  show ?case
  proof (cases "k = r")
    case True
    with Cons.prems have "r \<notin> set ks" by simp
    with Cons.prems have "\<forall>n \<in> set ks. filter P (h n) = []" by auto
    then have "filter P (concat (map h ks)) = []"
      by (induction ks) auto
    with True show ?thesis by simp
  next
    case False
    with Cons.prems have "r \<in> set ks" and "distinct ks" and "filter P (h k) = []"
      and "\<forall>n \<in> set ks. n \<noteq> r \<longrightarrow> filter P (h n) = []"
      by auto
    with Cons.IH show ?thesis by simp
  qed
qed

lemma count_list_filter: "P x \<Longrightarrow> count_list (filter P xs) x = count_list xs x"
  by (induction xs) auto

lemma Build_region_indep: "Build fo ao (b\<lparr>region := r\<rparr>) = Build fo ao b"
  by (simp add: Build_conv)

lemma Build_parts_subset:
  "set (components b) \<subseteq> set (Build fo ao b)"
  "n \<in> set fo \<Longrightarrow>
     set (case flags b n of None \<Rightarrow> [] | Some v \<Rightarrow> [flagToken n v]) \<subseteq> set (Build fo ao b)"
  "n \<in> set ao \<Longrightarrow>
     set (case arrayFlags b n of None \<Rightarrow> [] | Some vs \<Rightarrow> map (flagToken n) vs)
       \<subseteq> set (Build fo ao b)"
  "set (map boolToken (boolFlags b)) \<subseteq> set (Build fo ao b)"
  unfolding Build_conv by auto

lemma exec_args_Execute: "exec_args (Execute fo ao run TrimSpace b) = Build fo ao b"
  by (simp add: Execute_def Let_def split: option.splits)

text \<open>
  C4. Take a builder whose region is \<open>us-west1\<close> and whose own entries build no token
  beginning with \<open>--region=\<close>. However the runtime orders the maps,
  \<open>ExecuteWithRegion\<close> runs the executable with arguments of which exactly one begins
  with \<open>--region=\<close>, the token \<open>--region=us-west1\<close>, which so occurs exactly once.
  \<open>Execute\<close> on the same state runs it with the plain \<open>Build()\<close> list, which has no such
  token and does not depend on the region field.
\<close>

theorem region_injection:
  assumes "region b = ''us-west1''"
    and "range_order (flags b) fo" and "range_order (arrayFlags b) ao"
    and "\<not> list_ex (prefix ''--region='') (Build fo ao b)"
    and "range_order (flags (WithFlag ''region'' ''us-west1'' b)) fo'"
    and "range_order (arrayFlags b) ao'"
  shows "filter (prefix ''--region='') (exec_args (ExecuteWithRegion fo' ao' run TrimSpace b))
           = [''--region=us-west1'']
       \<and> count_list (exec_args (ExecuteWithRegion fo' ao' run TrimSpace b)) ''--region=us-west1''
           = 1
       \<and> exec_args (Execute fo ao run TrimSpace b) = Build fo ao b
       \<and> filter (prefix ''--region='') (exec_args (Execute fo ao run TrimSpace b)) = []
       \<and> Build fo ao (b\<lparr>region := r\<rparr>) = Build fo ao b"
proof -
  let ?P = "prefix ''--region=''"
  let ?b' = "WithFlag ''region'' ''us-west1'' b"
  let ?h = "\<lambda>n. case flags b n of None \<Rightarrow> [] | Some v \<Rightarrow> [flagToken n v]"
  let ?h' = "\<lambda>n. case flags ?b' n of None \<Rightarrow> [] | Some v \<Rightarrow> [flagToken n v]"
  let ?g = "\<lambda>n. case arrayFlags b n of None \<Rightarrow> [] | Some vs \<Rightarrow> map (flagToken n) vs"
  have none: "\<forall>t \<in> set (Build fo ao b). \<not> ?P t"
    using assms(4) by (simp add: list_ex_iff)
  have comps: "filter ?P (components b) = []"
    using none Build_parts_subset(1) [of b fo ao] unfolding filter_empty_conv by blast
  have fl: "\<forall>n \<in> set fo. filter ?P (?h n) = []"
    using none Build_parts_subset(2) [of _ fo b ao] unfolding filter_empty_conv by blast
  have ar: "\<forall>n \<in> set ao. filter ?P (?g n) = []"
    using none Build_parts_subset(3) [of _ ao b fo] unfolding filter_empty_conv by blast
  have bo: "filter ?P (map boolToken (boolFlags b)) = []"
    using none Build_parts_subset(4) [of b fo ao] unfolding filter_empty_conv by blast
  have fo_dom: "set fo = dom (flags b)" and ao_dom: "set ao = dom (arrayFlags b)"
    and ao'_dom: "set ao' = dom (arrayFlags b)"
    using assms(2,3,6) by (auto simp: range_order_def)
  have fl'_b: "flags ?b' = (flags b)(''region'' \<mapsto> ''us-west1'')"
    by (simp add: WithFlag_def)
  have d': "distinct fo'" and r_in: "''region'' \<in> set fo'"
    and fo'_sub: "set fo' \<subseteq> insert ''region'' (dom (flags b))"
    using assms(5) by (auto simp: range_order_def fl'_b)
  have others: "\<forall>n \<in> set fo'. n \<noteq> ''region'' \<longrightarrow> filter ?P (?h' n) = []"
  proof (intro ballI impI)
    fix n assume "n \<in> set fo'" and ne: "n \<noteq> ''region''"
    with fo'_sub have "n \<in> set fo" by (auto simp: fo_dom)
    with fl have "filter ?P (?h n) = []" by blast
    moreover have "?h' n = ?h n" using ne by (simp add: fl'_b)
    ultimately show "filter ?P (?h' n) = []" by simp
  qed
  have reg: "filter ?P (?h' ''region'') = [''--region=us-west1'']"
    by (simp add: fl'_b flagToken_def)
  have flags': "filter ?P (concat (map ?h' fo')) = [''--region=us-west1'']"
    using filter_concat_map_single [OF d' r_in others] reg by simp
  have "\<forall>n \<in> set ao'. filter ?P (?g n) = []"
    using ar by (simp add: ao_dom ao'_dom)
  then have arr': "filter ?P (concat (map ?g ao')) = []"
    by (induction ao') auto
  have same: "components ?b' = components b \<and> arrayFlags ?b' = arrayFlags b
      \<and> boolFlags ?b' = boolFlags b \<and> project ?b' = project b \<and> format ?b' = format b"
    by (simp add: WithFlag_def)
  have B': "filter ?P (Build fo' ao' ?b') = [''--region=us-west1'']"
    using comps flags' arr' bo by (simp add: Build_conv same)
  have E': "exec_args (ExecuteWithRegion fo' ao' run TrimSpace b) = Build fo' ao' ?b'"
    using assms(1) by (simp add: ExecuteWithRegion_def exec_args_Execute)
  have 1: "filter ?P (exec_args (ExecuteWithRegion fo' ao' run TrimSpace b))
      = [''--region=us-west1'']"
    using B' E' by simp
  have "count_list (exec_args (ExecuteWithRegion fo' ao' run TrimSpace b)) ''--region=us-west1''
      = count_list (filter ?P (exec_args (ExecuteWithRegion fo' ao' run TrimSpace b)))
          ''--region=us-west1''"
    by (rule count_list_filter [symmetric]) simp
  then have 2: "count_list (exec_args (ExecuteWithRegion fo' ao' run TrimSpace b))
      ''--region=us-west1'' = 1"
    by (simp add: 1)
  have 3: "exec_args (Execute fo ao run TrimSpace b) = Build fo ao b"
    by (rule exec_args_Execute)
  have 4: "filter ?P (exec_args (Execute fo ao run TrimSpace b)) = []"
    using none by (simp add: 3 filter_empty_conv)
  from 1 2 3 4 Build_region_indep show ?thesis by blast
qed

lemma regional_builder_fields:
  "region (WithFlag ''limit'' ''100'' (WithRegion ''us-west1''
      (Command (New newTestConfig) [''run'', ''services'', ''list'']))) = ''us-west1''"
  "flags (WithFlag ''limit'' ''100'' (WithRegion ''us-west1''
      (Command (New newTestConfig) [''run'', ''services'', ''list'']))) = [''limit'' \<mapsto> ''100'']"
  "arrayFlags (WithFlag ''limit'' ''100'' (WithRegion ''us-west1''
      (Command (New newTestConfig) [''run'', ''services'', ''list'']))) = Map.empty"
  "flags (WithFlag ''region'' ''us-west1'' (WithFlag ''limit'' ''100'' (WithRegion ''us-west1''
      (Command (New newTestConfig) [''run'', ''services'', ''list''])))) =
     [''limit'' \<mapsto> ''100'', ''region'' \<mapsto> ''us-west1'']"
  "Build [''limit''] [] (WithFlag ''limit'' ''100'' (WithRegion ''us-west1''
      (Command (New newTestConfig) [''run'', ''services'', ''list''])))
     = [''run'', ''services'', ''list'', ''--limit=100'', ''--project=default-project'',
        ''--format=json'']"
  by (simp_all add: WithFlag_def WithRegion_def Command_def New_def newTestConfig_def
      Build_conv flagToken_def)

theorem region_injection_witness:
  "region (WithFlag ''limit'' ''100'' (WithRegion ''us-west1''
      (Command (New newTestConfig) [''run'', ''services'', ''list'']))) = ''us-west1''
   \<and> range_order (flags (WithFlag ''limit'' ''100'' (WithRegion ''us-west1''
      (Command (New newTestConfig) [''run'', ''services'', ''list''])))) [''limit'']
   \<and> \<not> list_ex (prefix ''--region='')
        (Build [''limit''] [] (WithFlag ''limit'' ''100'' (WithRegion ''us-west1''
           (Command (New newTestConfig) [''run'', ''services'', ''list'']))))
   \<and> range_order (flags (WithFlag ''region'' ''us-west1'' (WithFlag ''limit'' ''100''
        (WithRegion ''us-west1''
           (Command (New newTestConfig) [''run'', ''services'', ''list'']))))) [''limit'', ''region'']
   \<and> count_list
        (exec_args (ExecuteWithRegion [''limit'', ''region''] []
           (\<lambda>path args. \<lparr>out_stdout = ''[]'', out_stderr = '''', out_err = None\<rparr>)
           TrimSpace_ascii
           (WithFlag ''limit'' ''100'' (WithRegion ''us-west1''
              (Command (New newTestConfig) [''run'', ''services'', ''list''])))))
        ''--region=us-west1'' = 1
   \<and> filter (prefix ''--region='')
        (exec_args (Execute [''limit''] []
           (\<lambda>path args. \<lparr>out_stdout = ''[]'', out_stderr = '''', out_err = None\<rparr>)
           TrimSpace_ascii
           (WithFlag ''limit'' ''100'' (WithRegion ''us-west1''
              (Command (New newTestConfig) [''run'', ''services'', ''list'']))))) = []"
proof -
  let ?b = "WithFlag ''limit'' ''100'' (WithRegion ''us-west1''
      (Command (New newTestConfig) [''run'', ''services'', ''list'']))"
  have h1: "region ?b = ''us-west1''"
    by (rule regional_builder_fields(1))
  have h2: "range_order (flags ?b) [''limit'']"
    by (simp add: regional_builder_fields(2) range_order_def)
  have h3: "range_order (arrayFlags ?b) []"
    by (simp add: regional_builder_fields(3) range_order_def)
  have h4: "\<not> list_ex (prefix ''--region='') (Build [''limit''] [] ?b)"
    by (simp add: regional_builder_fields(5))
  have h5: "range_order (flags (WithFlag ''region'' ''us-west1'' ?b)) [''limit'', ''region'']"
    by (simp add: regional_builder_fields(4) range_order_def) auto
  from region_injection [OF h1 h2 h3 h4 h5 h3]
  show ?thesis using h1 h2 h4 h5 by blast
qed

section \<open>The JSON text of an ErrorResponse reads back\<close>

lemma char_of_byte [simp]: "char_of (byte c) = c"
  by (simp add: byte_def)

lemma char_of_eqI: "byte c = n \<Longrightarrow> char_of n = c"
  by (auto simp: byte_def)

lemma quote_chars [simp]:
  "dquote \<noteq> backslash" "backslash \<noteq> dquote" "byte dquote = 0x22" "byte backslash = 0x5C"
  by (simp_all add: dquote_def backslash_def byte_def)

lemma hexval_hex: "d < 16 \<Longrightarrow> hexval (hex d) = Some d"
proof -
  assume "d < 16"
  then have "d = 15 \<or> d = 14 \<or> d = 13 \<or> d = 12 \<or> d = 11 \<or> d = 10 \<or> d = 9 \<or> d = 8
    \<or> d = 7 \<or> d = 6 \<or> d = 5 \<or> d = 4 \<or> d = 3 \<or> d = 2 \<or> d = 1 \<or> d = 0"
    by arith
  then show ?thesis
    by (elim disjE) (simp_all add: hex_def hexval_def byte_def)
qed

lemma hexval_0: "hexval (CHR ''0'') = Some 0"
  by (simp add: hexval_def byte_def)

lemma getu4_u00:
  assumes "byte b < 0x80"
  shows "getu4 (backslash # CHR ''u'' # CHR ''0'' # CHR ''0'' # hex (byte b div 16)
                 # hex (byte b mod 16) # rest) = Some (byte b)"
proof -
  have "byte b div 16 < 16" using assms by simp
  moreover have "byte b mod 16 < 16" by simp
  ultimately show ?thesis
    by (simp add: getu4_def hexval_hex hexval_0)
qed

lemma getu4_consts:
  "getu4 (backslash # CHR ''u'' # CHR ''f'' # CHR ''f'' # CHR ''f'' # CHR ''d'' # rest) = Some 0xFFFD"
  "getu4 (backslash # CHR ''u'' # CHR ''2'' # CHR ''0'' # CHR ''2'' # CHR ''8'' # rest) = Some 0x2028"
  "getu4 (backslash # CHR ''u'' # CHR ''2'' # CHR ''0'' # CHR ''2'' # CHR ''9'' # rest) = Some 0x2029"
  by (simp_all add: getu4_def hexval_def byte_def)

lemma EncodeRune_consts:
  "EncodeRune 0xFFFD = [CHR 0xEF, CHR 0xBF, CHR 0xBD]"
  "EncodeRune 0x2028 = [CHR 0xE2, CHR 0x80, CHR 0xA8]"
  "EncodeRune 0x2029 = [CHR 0xE2, CHR 0x80, CHR 0xA9]"
  by (simp_all add: EncodeRune_def char_of_eqI byte_def)

lemma EncodeRune_ascii: "byte b < 0x80 \<Longrightarrow> EncodeRune (byte b) = [b]"
  by (simp add: EncodeRune_def)

lemma first_size_cases: "first_size x = 0 \<or> first_size x = 2 \<or> first_size x = 3 \<or> first_size x = 4"
  by (simp add: first_size_def)

lemma accept_lo_ge: "0x80 \<le> accept_lo x"
  by (simp add: accept_lo_def)

text \<open>What a valid encoding of more than one byte looks like.\<close>

lemma rune_width_multi:
  assumes "\<not> byte c < 0x80" and "rune_width (c # s) \<noteq> 0"
  shows "rune_width (c # s) = first_size (byte c)"
    and "2 \<le> rune_width (c # s)"
    and "rune_width (c # s) - 1 \<le> length s"
    and "0x80 \<le> byte (hd (take (rune_width (c # s) - 1) s))"
    and "\<not> byte (hd (take (rune_width (c # s) - 1) s)) < accept_lo (byte c)"
    and "\<not> accept_hi (byte c) < byte (hd (take (rune_width (c # s) - 1) s))"
    and "list_all continuation (tl (take (rune_width (c # s) - 1) s))"
proof -
  define sz where "sz = first_size (byte c)"
  define more where "more = take (sz - 1) s"
  have unf: "rune_width (c # s) =
      (if sz = 0 then 0
       else if length more < sz - 1 then 0
       else if byte (hd more) < accept_lo (byte c) \<or> accept_hi (byte c) < byte (hd more) then 0
       else if \<not> list_all continuation (tl more) then 0
       else sz)"
    using assms(1) by (simp add: rune_width.simps(2) Let_def sz_def more_def)
  have sz: "sz \<noteq> 0"
    using assms(2) unf by (auto split: if_splits)
  have len: "\<not> length more < sz - 1"
    using assms(2) unf by (auto split: if_splits)
  have lo: "\<not> byte (hd more) < accept_lo (byte c)"
    using assms(2) unf by (auto split: if_splits)
  have hi: "\<not> accept_hi (byte c) < byte (hd more)"
    using assms(2) unf by (auto split: if_splits)
  have co: "list_all continuation (tl more)"
    using assms(2) unf by (auto split: if_splits)
  have w: "rune_width (c # s) = sz"
    using unf sz len lo hi co by simp
  show "rune_width (c # s) = first_size (byte c)"
    using w by (simp add: sz_def)
  show "2 \<le> rune_width (c # s)"
    using sz first_size_cases [of "byte c"] w by (auto simp: sz_def)
  show "rune_width (c # s) - 1 \<le> length s"
    using len w by (simp add: more_def)
  show "0x80 \<le> byte (hd (take (rune_width (c # s) - 1) s))"
    using lo accept_lo_ge [of "byte c"] w by (simp add: more_def)
  show "\<not> byte (hd (take (rune_width (c # s) - 1) s)) < accept_lo (byte c)"
    using lo w by (simp add: more_def)
  show "\<not> accept_hi (byte c) < byte (hd (take (rune_width (c # s) - 1) s))"
    using hi w by (simp add: more_def)
  show "list_all continuation (tl (take (rune_width (c # s) - 1) s))"
    using co w by (simp add: more_def)
qed

lemma rune_width_high_bytes:
  assumes "\<not> byte c < 0x80" and "rune_width (c # s) \<noteq> 0"
  shows "\<forall>x \<in> set (take (rune_width (c # s)) (c # s)). 0x80 \<le> byte x"
proof -
  define n where "n = rune_width (c # s)"
  define more where "more = take (n - 1) s"
  note m = rune_width_multi [OF assms, folded n_def, folded more_def]
  have "length more = n - 1" using m(3) by (simp add: more_def)
  with m(2) have ne: "more \<noteq> []" by auto
  have split: "more = hd more # tl more"
    using hd_Cons_tl [OF ne] by (rule sym)
  have "\<forall>x \<in> set (tl more). 0x80 \<le> byte x"
    using m(7) by (simp add: list_all_iff continuation_def)
  with m(4) have "\<forall>x \<in> set (hd more # tl more). 0x80 \<le> byte x" by simp
  with split have "\<forall>x \<in> set more. 0x80 \<le> byte x" by metis
  moreover have "take n (c # s) = c # more"
    using m(2) by (cases n) (simp_all add: more_def)
  ultimately show ?thesis using assms(1) by (simp add: n_def [symmetric])
qed

lemma rune_width_append:
  assumes "\<not> byte c < 0x80" and "rune_width (c # s) \<noteq> 0"
  shows "rune_width (take (rune_width (c # s)) (c # s) @ t) = rune_width (c # s)"
proof -
  define n where "n = rune_width (c # s)"
  note m = rune_width_multi [OF assms, folded n_def]
  have tk: "take n (c # s) = c # take (n - 1) s"
    using m(2) by (cases n) simp_all
  have fs: "first_size (byte c) = n" using m(1) by simp
  have same: "take (n - 1) (take (n - 1) s @ t) = take (n - 1) s"
    using m(3) by simp
  have n0: "n \<noteq> 0" using m(2) by simp
  have len: "\<not> length (take (n - 1) s) < n - 1" using m(3) by simp
  have "rune_width (c # (take (n - 1) s @ t)) = n"
    using assms(1) n0 len m(5,6,7)
    by (simp add: rune_width.simps(2) Let_def fs same)
  then show ?thesis by (simp add: tk n_def [symmetric])
qed

lemma high_byte_plain:
  assumes "0x80 \<le> byte c"
  shows "c \<noteq> dquote" and "c \<noteq> backslash" and "\<not> byte c < 0x20" and "\<not> byte c < 0x80"
  using assms by auto

lemma escape_ascii_Cons: "byte b < 0x80 \<Longrightarrow> escape (b # src) = escape [b] @ escape src"
  by (simp add: escape.simps(2))

lemma htmlSafeSet_plain:
  assumes "htmlSafeSet b"
  shows "b \<noteq> dquote" and "b \<noteq> backslash" and "\<not> byte b < 0x20" and "byte b < 0x80"
  using assms by (simp_all add: htmlSafeSet_def)

subsection \<open>The scanner finds the end of a written string\<close>

lemma scan_plain:
  assumes "\<forall>c \<in> set u. c \<noteq> dquote \<and> c \<noteq> backslash \<and> \<not> byte c < 0x20"
    and "scan_string X = Some (lit, rest)"
  shows "scan_string (u @ X) = Some (u @ lit, rest)"
  using assms by (induction u) (simp_all add: scan_string.simps(2))

lemma scan_esc2:
  assumes "e = CHR ''b'' \<or> e = CHR ''f'' \<or> e = CHR ''n'' \<or> e = CHR ''r'' \<or> e = CHR ''t''
      \<or> e = backslash \<or> e = CHR ''/'' \<or> e = dquote"
    and "scan_string X = Some (lit, rest)"
  shows "scan_string (backslash # e # X) = Some (backslash # e # lit, rest)"
  using assms by (simp add: scan_string.simps(2))

lemma u_not_simple:
  "\<not> (CHR ''u'' = CHR ''b'' \<or> CHR ''u'' = CHR ''f'' \<or> CHR ''u'' = CHR ''n'' \<or> CHR ''u'' = CHR ''r''
      \<or> CHR ''u'' = CHR ''t'' \<or> CHR ''u'' = backslash \<or> CHR ''u'' = CHR ''/'' \<or> CHR ''u'' = dquote)"
  by (simp add: backslash_def dquote_def)

lemma scan_u:
  assumes "getu4 (backslash # CHR ''u'' # h0 # h1 # h2 # h3 # X) = Some rr"
    and "scan_string X = Some (lit, rest)"
  shows "scan_string (backslash # CHR ''u'' # h0 # h1 # h2 # h3 # X)
           = Some (backslash # CHR ''u'' # h0 # h1 # h2 # h3 # lit, rest)"
  using assms u_not_simple by (simp add: scan_string.simps(2))

lemma escape_ascii_forms:
  assumes "byte b < 0x80" and "\<not> htmlSafeSet b"
  shows "((b = backslash \<or> b = dquote) \<and> escape [b] = [backslash, b])
       \<or> (b = CHR 0x08 \<and> escape [b] = [backslash, CHR ''b''])
       \<or> (b = CHR 0x0C \<and> escape [b] = [backslash, CHR ''f''])
       \<or> (b = CHR 0x0A \<and> escape [b] = [backslash, CHR ''n''])
       \<or> (b = CHR 0x0D \<and> escape [b] = [backslash, CHR ''r''])
       \<or> (b = CHR 0x09 \<and> escape [b] = [backslash, CHR ''t''])
       \<or> escape [b] = [backslash, CHR ''u'', CHR ''0'', CHR ''0'', hex (byte b div 16),
                          hex (byte b mod 16)]"
  using assms by (simp add: escape.simps(2))

lemma scan_escape_ascii:
  assumes "byte b < 0x80" and "scan_string X = Some (lit, rest)"
  shows "scan_string (escape [b] @ X) = Some (escape [b] @ lit, rest)"
proof (cases "htmlSafeSet b")
  case True
  then have "escape [b] = [b]" using assms(1) by (simp add: escape.simps(2))
  moreover have "scan_string ([b] @ X) = Some ([b] @ lit, rest)"
    using htmlSafeSet_plain [OF True] assms(2) by (intro scan_plain) simp_all
  ultimately show ?thesis by simp
next
  case False
  from escape_ascii_forms [OF assms(1) False]
  consider (two) e where "escape [b] = [backslash, e]"
      "e = CHR ''b'' \<or> e = CHR ''f'' \<or> e = CHR ''n'' \<or> e = CHR ''r'' \<or> e = CHR ''t''
        \<or> e = backslash \<or> e = CHR ''/'' \<or> e = dquote"
    | (six) "escape [b] = [backslash, CHR ''u'', CHR ''0'', CHR ''0'', hex (byte b div 16),
                          hex (byte b mod 16)]"
    by blast
  then show ?thesis
  proof cases
    case two
    with scan_esc2 [OF two(2) assms(2)] show ?thesis by simp
  next
    case six
    with scan_u [OF getu4_u00 [OF assms(1)] assms(2)] show ?thesis by simp
  qed
qed

lemma scan_escape: "scan_string (escape s @ dquote # rest) = Some (escape s, rest)"
proof (induction "length s" arbitrary: s rule: less_induct)
  case less
  show ?case
  proof (cases s)
    case Nil
    then show ?thesis by (simp add: scan_string.simps(2))
  next
    case (Cons b src)
    have IHsrc: "scan_string (escape src @ dquote # rest) = Some (escape src, rest)"
      using less Cons by simp
    show ?thesis
    proof (cases "byte b < 0x80")
      case True
      have "escape s = escape [b] @ escape src"
        unfolding Cons by (rule escape_ascii_Cons [OF True])
      with scan_escape_ascii [OF True IHsrc] show ?thesis by simp
    next
      case False
      define n where "n = rune_width (b # src)"
      have IHdrop: "scan_string (escape (drop (n - 1) src) @ dquote # rest)
          = Some (escape (drop (n - 1) src), rest)"
        using less Cons by simp
      consider (bad) "n = 0"
        | (ls) "n \<noteq> 0" "take n (b # src) = [CHR 0xE2, CHR 0x80, CHR 0xA8]"
        | (ps) "n \<noteq> 0" "take n (b # src) \<noteq> [CHR 0xE2, CHR 0x80, CHR 0xA8]"
               "take n (b # src) = [CHR 0xE2, CHR 0x80, CHR 0xA9]"
        | (copy) "n \<noteq> 0" "take n (b # src) \<noteq> [CHR 0xE2, CHR 0x80, CHR 0xA8]"
               "take n (b # src) \<noteq> [CHR 0xE2, CHR 0x80, CHR 0xA9]"
        by blast
      then show ?thesis
      proof cases
        case bad
        then have "escape s = [backslash, CHR ''u'', CHR ''f'', CHR ''f'', CHR ''f'', CHR ''d'']
            @ escape src"
          using False Cons by (simp add: escape.simps(2) Let_def n_def [symmetric])
        with scan_u [OF getu4_consts(1) IHsrc] show ?thesis by simp
      next
        case ls
        then have "escape s = [backslash, CHR ''u'', CHR ''2'', CHR ''0'', CHR ''2'', CHR ''8'']
            @ escape (drop (n - 1) src)"
          using False Cons by (simp add: escape.simps(2) Let_def n_def [symmetric])
        with scan_u [OF getu4_consts(2) IHdrop] show ?thesis by simp
      next
        case ps
        then have "escape s = [backslash, CHR ''u'', CHR ''2'', CHR ''0'', CHR ''2'', CHR ''9'']
            @ escape (drop (n - 1) src)"
          using False Cons by (simp add: escape.simps(2) Let_def n_def [symmetric])
        with scan_u [OF getu4_consts(3) IHdrop] show ?thesis by simp
      next
        case copy
        then have e: "escape s = take n (b # src) @ escape (drop (n - 1) src)"
          using False Cons by (simp add: escape.simps(2) Let_def n_def [symmetric])
        have "\<forall>x \<in> set (take n (b # src)). 0x80 \<le> byte x"
          using rune_width_high_bytes [OF False] copy(1) by (simp add: n_def)
        then have "\<forall>c \<in> set (take n (b # src)). c \<noteq> dquote \<and> c \<noteq> backslash \<and> \<not> byte c < 0x20"
          using high_byte_plain by blast
        from scan_plain [OF this IHdrop] e show ?thesis by simp
      qed
    qed
  qed
qed

subsection \<open>Unquoting a written string gives the string back\<close>

lemma unquote_plain:
  assumes "htmlSafeSet b" and "unquote X = Some v"
  shows "unquote (b # X) = Some (b # v)"
  using htmlSafeSet_plain [OF assms(1)] assms(2) by (simp add: unquote.simps(2))

lemma unquote_esc_self:
  assumes "e = backslash \<or> e = dquote" and "unquote X = Some v"
  shows "unquote (backslash # e # X) = Some (e # v)"
  using assms by (auto simp: unquote.simps(2))

lemma unquote_esc_letters:
  assumes "unquote X = Some v"
  shows "unquote (backslash # CHR ''b'' # X) = Some (CHR 0x08 # v)"
    and "unquote (backslash # CHR ''f'' # X) = Some (CHR 0x0C # v)"
    and "unquote (backslash # CHR ''n'' # X) = Some (CHR 0x0A # v)"
    and "unquote (backslash # CHR ''r'' # X) = Some (CHR 0x0D # v)"
    and "unquote (backslash # CHR ''t'' # X) = Some (CHR 0x09 # v)"
  using assms by (simp_all add: unquote.simps(2) dquote_def backslash_def)

lemma unquote_u:
  assumes "getu4 (backslash # CHR ''u'' # h0 # h1 # h2 # h3 # X) = Some rr"
    and "rr < 0xD800 \<or> 0xE000 \<le> rr"
    and "unquote X = Some v"
  shows "unquote (backslash # CHR ''u'' # h0 # h1 # h2 # h3 # X) = Some (EncodeRune rr @ v)"
proof -
  have ne: "CHR ''u'' \<noteq> dquote" "CHR ''u'' \<noteq> backslash"
    by (simp_all add: dquote_def backslash_def)
  have ns: "\<not> (0xD800 \<le> rr \<and> rr < 0xE000)"
    using assms(2) by auto
  show ?thesis
    by (simp add: unquote.simps(2) [of backslash] ne assms(1) assms(3) ns)
qed

lemma unquote_escape_ascii:
  assumes "byte b < 0x80" and "unquote X = Some v"
  shows "unquote (escape [b] @ X) = Some (b # v)"
proof (cases "htmlSafeSet b")
  case True
  then have "escape [b] = [b]" using assms(1) by (simp add: escape.simps(2))
  with unquote_plain [OF True assms(2)] show ?thesis by simp
next
  case False
  from escape_ascii_forms [OF assms(1) False]
  consider (self) "b = backslash \<or> b = dquote" "escape [b] = [backslash, b]"
    | (b) "b = CHR 0x08" "escape [b] = [backslash, CHR ''b'']"
    | (f) "b = CHR 0x0C" "escape [b] = [backslash, CHR ''f'']"
    | (n) "b = CHR 0x0A" "escape [b] = [backslash, CHR ''n'']"
    | (r) "b = CHR 0x0D" "escape [b] = [backslash, CHR ''r'']"
    | (t) "b = CHR 0x09" "escape [b] = [backslash, CHR ''t'']"
    | (six) "escape [b] = [backslash, CHR ''u'', CHR ''0'', CHR ''0'', hex (byte b div 16),
                          hex (byte b mod 16)]"
    by blast
  then show ?thesis
  proof cases
    case self
    with unquote_esc_self [OF self(1) assms(2)] show ?thesis by simp
  next
    case b
    with unquote_esc_letters(1) [OF assms(2)] show ?thesis by simp
  next
    case f
    with unquote_esc_letters(2) [OF assms(2)] show ?thesis by simp
  next
    case n
    with unquote_esc_letters(3) [OF assms(2)] show ?thesis by simp
  next
    case r
    with unquote_esc_letters(4) [OF assms(2)] show ?thesis by simp
  next
    case t
    with unquote_esc_letters(5) [OF assms(2)] show ?thesis by simp
  next
    case six
    have "byte b < 0xD800 \<or> 0xE000 \<le> byte b" using assms(1) by simp
    from unquote_u [OF getu4_u00 [OF assms(1)] this assms(2)] six
    show ?thesis by (simp add: EncodeRune_ascii [OF assms(1)])
  qed
qed

lemma unquote_copy:
  assumes "\<not> byte c < 0x80" and "rune_width (c # s) \<noteq> 0" and "unquote X = Some v"
  shows "unquote (take (rune_width (c # s)) (c # s) @ X)
           = Some (take (rune_width (c # s)) (c # s) @ v)"
proof -
  define n where "n = rune_width (c # s)"
  define more where "more = take (n - 1) s"
  note m = rune_width_multi [OF assms(1,2), folded n_def]
  have tk: "take n (c # s) = c # more"
    using m(2) by (cases n) (simp_all add: more_def)
  have w: "rune_width (c # (more @ X)) = n"
    using rune_width_append [OF assms(1,2), of X] by (simp add: n_def [symmetric] tk)
  have n0: "n \<noteq> 0" using m(2) by simp
  have len: "length more = n - 1" using m(3) by (simp add: more_def)
  have hb: "0x80 \<le> byte c" using assms(1) by simp
  have t1: "take n (c # (more @ X)) = c # more"
    using m(2) len by (cases n) simp_all
  have d1: "drop (n - 1) (more @ X) = X"
    using len by simp
  have "unquote (c # (more @ X)) = Some (take n (c # (more @ X)) @ v)"
    using high_byte_plain [OF hb] n0 assms(3)
    by (simp only: unquote.simps(2) [of c] w Let_def d1 if_False option.map) simp
  then show ?thesis by (simp add: n_def [symmetric] tk t1)
qed

lemma unquote_escape: "ValidString s \<Longrightarrow> unquote (escape s) = Some s"
proof (induction "length s" arbitrary: s rule: less_induct)
  case less
  show ?case
  proof (cases s)
    case Nil
    then show ?thesis by simp
  next
    case (Cons b src)
    show ?thesis
    proof (cases "byte b < 0x80")
      case True
      have "ValidString src"
        using less.prems Cons True by (simp add: ValidString.simps(2))
      then have IHsrc: "unquote (escape src) = Some src"
        using less.hyps Cons by simp
      have "escape s = escape [b] @ escape src"
        unfolding Cons by (rule escape_ascii_Cons [OF True])
      with unquote_escape_ascii [OF True IHsrc] Cons show ?thesis by simp
    next
      case False
      define n where "n = rune_width (b # src)"
      have n0: "n \<noteq> 0" and v: "ValidString (drop (n - 1) src)"
        using less.prems Cons False by (simp_all add: ValidString.simps(2) n_def)
      have IHdrop: "unquote (escape (drop (n - 1) src)) = Some (drop (n - 1) src)"
        using less.hyps Cons v by simp
      have two: "2 \<le> n" and le: "n - 1 \<le> length src"
        using rune_width_multi(2,3) [OF False] n0 by (simp_all add: n_def)
      have tk: "take n (b # src) = b # take (n - 1) src"
        using two by (cases n) simp_all
      have whole: "take n (b # src) @ drop (n - 1) src = s"
        by (simp add: tk Cons)
      consider (ls) "take n (b # src) = [CHR 0xE2, CHR 0x80, CHR 0xA8]"
        | (ps) "take n (b # src) \<noteq> [CHR 0xE2, CHR 0x80, CHR 0xA8]"
               "take n (b # src) = [CHR 0xE2, CHR 0x80, CHR 0xA9]"
        | (copy) "take n (b # src) \<noteq> [CHR 0xE2, CHR 0x80, CHR 0xA8]"
               "take n (b # src) \<noteq> [CHR 0xE2, CHR 0x80, CHR 0xA9]"
        by blast
      then show ?thesis
      proof cases
        case ls
        then have "escape s = [backslash, CHR ''u'', CHR ''2'', CHR ''0'', CHR ''2'', CHR ''8'']
            @ escape (drop (n - 1) src)"
          using False Cons n0 by (simp add: escape.simps(2) Let_def n_def [symmetric])
        moreover have "(0x2028::nat) < 0xD800 \<or> (0xE000::nat) \<le> 0x2028" by simp
        note unquote_u [OF getu4_consts(2) this IHdrop]
        ultimately have "unquote (escape s) = Some (take n (b # src) @ drop (n - 1) src)"
          by (simp add: EncodeRune_consts ls)
        with whole show ?thesis by simp
      next
        case ps
        then have "escape s = [backslash, CHR ''u'', CHR ''2'', CHR ''0'', CHR ''2'', CHR ''9'']
            @ escape (drop (n - 1) src)"
          using False Cons n0 by (simp add: escape.simps(2) Let_def n_def [symmetric])
        moreover have "(0x2029::nat) < 0xD800 \<or> (0xE000::nat) \<le> 0x2029" by simp
        note unquote_u [OF getu4_consts(3) this IHdrop]
        ultimately have "unquote (escape s) = Some (take n (b # src) @ drop (n - 1) src)"
          by (simp add: EncodeRune_consts ps)
        with whole show ?thesis by simp
      next
        case copy
        then have "escape s = take n (b # src) @ escape (drop (n - 1) src)"
          using False Cons n0 by (simp add: escape.simps(2) Let_def n_def [symmetric])
        moreover have "rune_width (b # src) \<noteq> 0" using n0 by (simp add: n_def)
        note unquote_copy [OF False this IHdrop, folded n_def]
        ultimately have "unquote (escape s) = Some (take n (b # src) @ drop (n - 1) src)"
          by simp
        with whole show ?thesis by simp
      qed
    qed
  qed
qed

subsection \<open>Reading the object back\<close>

lemma string_literal_appendString:
  assumes "ValidString v"
  shows "string_literal (appendString v @ rest) = Some (v, rest)"
  by (simp add: string_literal_def appendString_def scan_escape unquote_escape [OF assms])

lemma skipSpace_simps [simp]:
  "skipSpace [] = []"
  "skipSpace (CHR '' '' # s) = skipSpace s"
  "skipSpace (CHR 0x0A # s) = skipSpace s"
  "skipSpace (CHR '':'' # s) = CHR '':'' # s"
  "skipSpace (CHR '','' # s) = CHR '','' # s"
  "skipSpace (CHR ''{'' # s) = CHR ''{'' # s"
  "skipSpace (CHR ''}'' # s) = CHR ''}'' # s"
  "skipSpace (dquote # s) = dquote # s"
  by (simp_all add: skipSpace_def isSpace_def dquote_def)

lemma skipSpace_appendString [simp]: "skipSpace (appendString v @ s) = appendString v @ s"
  by (simp add: appendString_def)

lemma members_last:
  assumes "ValidString name" and "ValidString v" and "store_member name v resp = Some resp'"
  shows "members resp (appendString name @ '': '' @ appendString v @ [CHR 0x0A] @ ''}'')
           = Some resp'"
  by (subst members.simps)
    (simp add: string_literal_appendString [OF assms(1)] string_literal_appendString [OF assms(2)]
      assms(3))

lemma members_more:
  assumes "ValidString name" and "ValidString v" and "store_member name v resp = Some resp'"
  shows "members resp (appendString name @ '': '' @ appendString v @ '','' @ [CHR 0x0A] @ ''  ''
                       @ appendString name' @ X)
           = members resp' (appendString name' @ X)"
  by (subst members.simps)
    (simp add: string_literal_appendString [OF assms(1)] string_literal_appendString [OF assms(2)]
      assms(3))

lemma Unmarshal_object:
  "Unmarshal (''{'' @ [CHR 0x0A] @ ''  '' @ appendString name @ X) resp
     = members resp (appendString name @ X)"
proof -
  have "appendString name @ X = dquote # escape name @ [dquote] @ X"
    by (simp add: appendString_def)
  moreover have "dquote \<noteq> CHR ''}''" by (simp add: dquote_def)
  ultimately show ?thesis by (simp add: Unmarshal_def)
qed

lemma ValidString_names:
  "ValidString ''error''" "ValidString ''command''" "ValidString ''stderr''"
  by (simp_all add: ValidString.simps(2) byte_def)

lemma store_member_names:
  "store_member ''error'' v resp = Some (resp\<lparr>ErrorResponse_Error := v\<rparr>)"
  "store_member ''command'' v resp = Some (resp\<lparr>ErrorResponse_Command := v\<rparr>)"
  "store_member ''stderr'' v resp = Some (resp\<lparr>ErrorResponse_Stderr := v\<rparr>)"
  by (simp_all add: store_member_def)

lemma FormatError_text:
  "FormatError err command stderr =
     ''{'' @ [CHR 0x0A] @ ''  '' @ appendString ''error'' @ '': '' @ appendString err
     @ (if command = '''' then []
        else '','' @ [CHR 0x0A] @ ''  '' @ appendString ''command'' @ '': '' @ appendString command)
     @ (if stderr = '''' then []
        else '','' @ [CHR 0x0A] @ ''  '' @ appendString ''stderr'' @ '': '' @ appendString stderr)
     @ [CHR 0x0A] @ ''}''"
  by (simp add: FormatError_def MarshalIndent_def)

lemma Unmarshal_FormatError:
  assumes "ValidString err" and "ValidString command" and "ValidString stderr"
  shows "Unmarshal (FormatError err command stderr) resp
           = Some \<lparr>ErrorResponse_Error = err,
                   ErrorResponse_Command =
                     (if command = '''' then ErrorResponse_Command resp else command),
                   ErrorResponse_Stderr =
                     (if stderr = '''' then ErrorResponse_Stderr resp else stderr)\<rparr>"
proof -
  note e = members_more [OF ValidString_names(1) assms(1) store_member_names(1)]
    members_last [OF ValidString_names(1) assms(1) store_member_names(1)]
  note c = members_more [OF ValidString_names(2) assms(2) store_member_names(2)]
    members_last [OF ValidString_names(2) assms(2) store_member_names(2)]
  note s = members_last [OF ValidString_names(3) assms(3) store_member_names(3)]
  show ?thesis
  proof (cases "command = ''''")
    case c0: True
    show ?thesis
    proof (cases "stderr = ''''")
      case True
      have "FormatError err command stderr =
          ''{'' @ [CHR 0x0A] @ ''  '' @ appendString ''error'' @ '': '' @ appendString err
          @ [CHR 0x0A] @ ''}''"
        using c0 True by (simp add: FormatError_text)
      then have "Unmarshal (FormatError err command stderr) resp
          = Some (resp\<lparr>ErrorResponse_Error := err\<rparr>)"
        using Unmarshal_object [of "''error''" _ resp] e(2) [of resp] by simp
      with c0 True show ?thesis by simp
    next
      case False
      have "FormatError err command stderr =
          ''{'' @ [CHR 0x0A] @ ''  '' @ appendString ''error'' @ '': '' @ appendString err
          @ '','' @ [CHR 0x0A] @ ''  '' @ appendString ''stderr'' @ '': '' @ appendString stderr
          @ [CHR 0x0A] @ ''}''"
        using c0 False by (simp add: FormatError_text)
      then have "Unmarshal (FormatError err command stderr) resp
          = Some (resp\<lparr>ErrorResponse_Error := err, ErrorResponse_Stderr := stderr\<rparr>)"
        using Unmarshal_object [of "''error''" _ resp] e(1) [of resp "''stderr''"]
          s [of "resp\<lparr>ErrorResponse_Error := err\<rparr>"]
        by simp
      with c0 False show ?thesis by simp
    qed
  next
    case c1: False
    show ?thesis
    proof (cases "stderr = ''''")
      case True
      have "FormatError err command stderr =
          ''{'' @ [CHR 0x0A] @ ''  '' @ appendString ''error'' @ '': '' @ appendString err
          @ '','' @ [CHR 0x0A] @ ''  '' @ appendString ''command'' @ '': '' @ appendString command
          @ [CHR 0x0A] @ ''}''"
        using c1 True by (simp add: FormatError_text)
      then have "Unmarshal (FormatError err command stderr) resp
          = Some (resp\<lparr>ErrorResponse_Error := err, ErrorResponse_Command := command\<rparr>)"
        using Unmarshal_object [of "''error''" _ resp] e(1) [of resp "''command''"]
          c(2) [of "resp\<lparr>ErrorResponse_Error := err\<rparr>"]
        by simp
      with c1 True show ?thesis by simp
    next
      case False
      have "FormatError err command stderr =
          ''{'' @ [CHR 0x0A] @ ''  '' @ appendString ''error'' @ '': '' @ appendString err
          @ '','' @ [CHR 0x0A] @ ''  '' @ appendString ''command'' @ '': '' @ appendString command
          @ '','' @ [CHR 0x0A] @ ''  '' @ appendString ''stderr'' @ '': '' @ appendString stderr
          @ [CHR 0x0A] @ ''}''"
        using c1 False by (simp add: FormatError_text)
      then have "Unmarshal (FormatError err command stderr) resp
          = Some (resp\<lparr>ErrorResponse_Error := err, ErrorResponse_Command := command,
                        ErrorResponse_Stderr := stderr\<rparr>)"
        using Unmarshal_object [of "''error''" _ resp] e(1) [of resp "''command''"]
          c(1) [of "resp\<lparr>ErrorResponse_Error := err\<rparr>" "''stderr''"]
          s [of "resp\<lparr>ErrorResponse_Error := err, ErrorResponse_Command := command\<rparr>"]
        by simp
      with c1 False show ?thesis by simp
    qed
  qed
qed

text \<open>
  C9, as the claim states it, fails: a message that is not valid UTF-8 does not come
  back. The byte \<open>FF\<close> is written as the escape of the replacement character and read
  back as the three bytes \<open>EF BF BD\<close>.
\<close>

theorem FormatError_roundtrip_counterexample:
  "FormatError [CHR 0xFF] '''' '''' =
     ''{'' @ [CHR 0x0A] @ ''  '' @ [dquote] @ ''error'' @ [dquote] @ '': ''
     @ [dquote, backslash] @ ''ufffd'' @ [dquote] @ [CHR 0x0A] @ ''}''
   \<and> Unmarshal (FormatError [CHR 0xFF] '''' '''')
        \<lparr>ErrorResponse_Error = '''', ErrorResponse_Command = '''', ErrorResponse_Stderr = ''''\<rparr>
     = Some \<lparr>ErrorResponse_Error = [CHR 0xEF, CHR 0xBF, CHR 0xBD], ErrorResponse_Command = '''',
             ErrorResponse_Stderr = ''''\<rparr>
   \<and> [CHR 0xEF, CHR 0xBF, CHR 0xBD] \<noteq> [CHR 0xFF]"
proof -
  have w: "rune_width [CHR 0xFF] = 0"
    by (simp add: rune_width.simps(2) byte_def first_size_def)
  have esc: "escape [CHR 0xFF] = [backslash, CHR ''u'', CHR ''f'', CHR ''f'', CHR ''f'', CHR ''d'']"
    by (simp add: escape.simps(2) w byte_def)
  have nm: "escape ''error'' = ''error''"
    by (simp add: escape.simps(2) byte_def htmlSafeSet_def dquote_def backslash_def)
  have out: "FormatError [CHR 0xFF] '''' '''' =
     ''{'' @ [CHR 0x0A] @ ''  '' @ [dquote] @ ''error'' @ [dquote] @ '': ''
     @ [dquote, backslash] @ ''ufffd'' @ [dquote] @ [CHR 0x0A] @ ''}''"
    by (simp add: FormatError_text appendString_def esc nm)
  have "(0xFFFD::nat) < 0xD800 \<or> (0xE000::nat) \<le> 0xFFFD" by simp
  from unquote_u [OF getu4_consts(1) this, of "[]" "[]"]
  have unq: "unquote (escape [CHR 0xFF]) = Some [CHR 0xEF, CHR 0xBF, CHR 0xBD]"
    by (simp add: esc EncodeRune_consts)
  have lit: "string_literal (appendString [CHR 0xFF] @ rest) = Some ([CHR 0xEF, CHR 0xBF, CHR 0xBD], rest)"
    for rest
    by (simp add: string_literal_def appendString_def scan_escape unq)
  have "members resp (appendString ''error'' @ '': '' @ appendString [CHR 0xFF] @ [CHR 0x0A] @ ''}'')
      = Some (resp\<lparr>ErrorResponse_Error := [CHR 0xEF, CHR 0xBF, CHR 0xBD]\<rparr>)" for resp
    by (subst members.simps)
      (simp add: string_literal_appendString [OF ValidString_names(1)] lit store_member_names)
  then have "Unmarshal (FormatError [CHR 0xFF] '''' '''')
        \<lparr>ErrorResponse_Error = '''', ErrorResponse_Command = '''', ErrorResponse_Stderr = ''''\<rparr>
     = Some \<lparr>ErrorResponse_Error = [CHR 0xEF, CHR 0xBF, CHR 0xBD], ErrorResponse_Command = '''',
             ErrorResponse_Stderr = ''''\<rparr>"
    using Unmarshal_object [of "''error''"] by (simp add: FormatError_text)
  with out show ?thesis by simp
qed

text \<open>
  C9, amended. For every error message, command string and stderr string that are valid
  UTF-8, \<open>FormatError\<close> returns a JSON text that \<open>Unmarshal\<close> reads into an
  \<open>ErrorResponse\<close> with exactly these three values. The text is an indented object
  with the member \<open>error\<close>, then the member \<open>command\<close> unless the command is empty,
  then the member \<open>stderr\<close> unless the stderr is empty, and nothing else; reading it
  into any target leaves the field of an omitted member as the target had it.
\<close>

theorem FormatError_roundtrip:
  assumes "ValidString err" and "ValidString command" and "ValidString stderr"
  shows "Unmarshal (FormatError err command stderr)
           \<lparr>ErrorResponse_Error = '''', ErrorResponse_Command = '''', ErrorResponse_Stderr = ''''\<rparr>
           = Some \<lparr>ErrorResponse_Error = err, ErrorResponse_Command = command,
                   ErrorResponse_Stderr = stderr\<rparr>
       \<and> FormatError err command stderr =
           ''{'' @ [CHR 0x0A] @ ''  '' @ appendString ''error'' @ '': '' @ appendString err
           @ (if command = '''' then []
              else '','' @ [CHR 0x0A] @ ''  '' @ appendString ''command'' @ '': ''
                   @ appendString command)
           @ (if stderr = '''' then []
              else '','' @ [CHR 0x0A] @ ''  '' @ appendString ''stderr'' @ '': ''
                   @ appendString stderr)
           @ [CHR 0x0A] @ ''}''
       \<and> Unmarshal (FormatError err command stderr) resp
           = Some \<lparr>ErrorResponse_Error = err,
                   ErrorResponse_Command =
                     (if command = '''' then ErrorResponse_Command resp else command),
                   ErrorResponse_Stderr =
                     (if stderr = '''' then ErrorResponse_Stderr resp else stderr)\<rparr>"
proof -
  have 1: "Unmarshal (FormatError err command stderr)
           \<lparr>ErrorResponse_Error = '''', ErrorResponse_Command = '''', ErrorResponse_Stderr = ''''\<rparr>
           = Some \<lparr>ErrorResponse_Error = err, ErrorResponse_Command = command,
                   ErrorResponse_Stderr = stderr\<rparr>"
    by (simp add: Unmarshal_FormatError [OF assms])
  from 1 FormatError_text [of err command stderr] Unmarshal_FormatError [OF assms, of resp]
  show ?thesis by (intro conjI)
qed

lemma ValidString_examples:
  "ValidString ''boom''" "ValidString ''tool x y''" "ValidString ''denied''"
  by (simp_all add: ValidString.simps(2) byte_def)

theorem FormatError_roundtrip_witness:
  "ValidString ''boom'' \<and> ValidString ''tool x y'' \<and> ValidString ''denied''
   \<and> Unmarshal (FormatError ''boom'' ''tool x y'' ''denied'')
        \<lparr>ErrorResponse_Error = '''', ErrorResponse_Command = '''', ErrorResponse_Stderr = ''''\<rparr>
     = Some \<lparr>ErrorResponse_Error = ''boom'', ErrorResponse_Command = ''tool x y'',
             ErrorResponse_Stderr = ''denied''\<rparr>"
  using FormatError_roundtrip [OF ValidString_examples] ValidString_examples by blast

end
